(* ===== verification/Prelude.thy ===== *)
theory Prelude
  imports Main "HOL-Library.Word" "HOL-Library.Signed_Division"
begin

text \<open>
  Shared ground of the development: the C integer types of the program as fixed-width words,
  the C remainder operator, the collections of rewrite rules the component theories fill, and
  the list lemmas about fixed-size arrays read in ring order.
\<close>

section \<open>Integer types of the program\<close>

type_synonym u8 = "8 word"
type_synonym u16 = "16 word"
type_synonym u32 = "32 word"
type_synonym u64 = "64 word"

text \<open>
  Rewrite rules for the model: \<open>c_ops\<close> unfolds the operations that only combine others into
  their branches, \<open>c_inv\<close> the invariants of a sensor and of the program into their parts.
\<close>

named_theorems c_ops
named_theorems c_inv

text \<open>
  The C operator \<open>%\<close> on \<open>int\<close> truncates towards zero. On the non-negative operands the
  program uses it agrees with \<open>mod\<close>.
\<close>

definition c_rem :: "int \<Rightarrow> int \<Rightarrow> int" where
  "c_rem a b = a smod b"

lemma c_rem_nonneg [simp]: "0 \<le> a \<Longrightarrow> 0 < b \<Longrightarrow> c_rem a b = a mod b"
  by (cases "a = 0") (simp_all add: c_rem_def signed_modulo_int_def sgn_if)

text \<open>A byte index computed from an \<open>int\<close> that is already below 256.\<close>

lemma unat_word_of_int_small:
  "0 \<le> x \<Longrightarrow> x < 256 \<Longrightarrow> unat (word_of_int x :: u8) = nat x"
  by (simp add: unat_eq_nat_uint uint_word_of_int_eq take_bit_int_eq_self)

lemma uint_less_iff_unat: "uint w < int n \<longleftrightarrow> unat w < n"
  by (metis of_nat_unat of_nat_less_iff)

lemma uint_less_numeral_iff: "uint w < numeral k \<longleftrightarrow> unat w < numeral k"
  using uint_less_iff_unat [of w "numeral k"] by simp

lemma uint_gt_numeral_iff: "numeral k < uint w \<longleftrightarrow> numeral k < unat w"
  using of_nat_less_iff [of "numeral k" "unat w", where 'a = int] by simp

lemma u8_unat_bound: "unat (w :: u8) < 256"
  using unsigned_less [of w, where 'a = nat] by simp

lemma u8_less_imp_small: "(x :: u8) < l \<Longrightarrow> unat x < 255"
  using u8_unat_bound [of l] by (simp add: word_less_nat_alt)

lemma u8_inc_unat: "unat (w :: u8) < 255 \<Longrightarrow> unat (w + 1) = Suc (unat w)"
  by (simp add: unat_word_ariths)

lemma u64_diff_unat: "(b :: u64) \<le> a \<Longrightarrow> unat (a - b) = unat a - unat b"
  by (rule unat_sub)

section \<open>Arrays read in ring order\<close>

text \<open>
  \<open>ring_slice xs start n\<close> reads \<open>n\<close> elements of the array \<open>xs\<close> from index \<open>start\<close> on,
  wrapping at its end. A write just past the slice extends it; a write on its first slot, when
  the slice is the whole array, replaces the oldest element by a new youngest one.
\<close>

definition ring_slice :: "'a list \<Rightarrow> nat \<Rightarrow> nat \<Rightarrow> 'a list" where
  "ring_slice xs start n = map (\<lambda>i. xs ! ((start + i) mod length xs)) [0..<n]"

lemma length_ring_slice [simp]: "length (ring_slice xs start n) = n"
  by (simp add: ring_slice_def)

lemma ring_slice_nth: "i < n \<Longrightarrow> ring_slice xs start n ! i = xs ! ((start + i) mod length xs)"
  by (simp add: ring_slice_def)

lemma ring_slice_0 [simp]: "ring_slice xs start 0 = []"
  by (simp add: ring_slice_def)

lemma ring_slice_Suc:
  "ring_slice xs start (Suc n) = ring_slice xs start n @ [xs ! ((start + n) mod length xs)]"
  by (simp add: ring_slice_def)

lemma mod_add_diff_self:
  fixes s i n L :: nat
  assumes "i < n" "n < L"
  shows "(s + i) mod L \<noteq> (s + n) mod L"
proof
  assume "(s + i) mod L = (s + n) mod L"
  then have "L dvd (s + n) - (s + i)"
    using assms by (metis mod_eq_dvd_iff_nat add_le_cancel_left less_imp_le)
  then have "L dvd n - i" by simp
  with assms show False by (auto dest: dvd_imp_le)
qed

lemma ring_slice_extend:
  assumes "n < length xs"
  shows "ring_slice (xs[(s + n) mod length xs := x]) s (Suc n) = ring_slice xs s n @ [x]"
proof -
  have "(s + n) mod length xs < length xs"
    using assms by (intro mod_less_divisor) auto
  moreover have "xs[(s + n) mod length xs := x] ! ((s + i) mod length xs) = xs ! ((s + i) mod length xs)"
    if "i < n" for i
    using mod_add_diff_self [OF that assms, of s] by (metis nth_list_update_neq)
  ultimately show ?thesis by (simp add: ring_slice_def)
qed

lemma ring_slice_tail:
  "0 < n \<Longrightarrow> ring_slice xs (Suc s) (n - 1) = tl (ring_slice xs s n)"
  by (rule nth_equalityI) (auto simp: ring_slice_nth nth_tl)

lemma ring_slice_mod: "ring_slice xs (s mod length xs) n = ring_slice xs s n"
  by (simp add: ring_slice_def mod_add_left_eq)

lemma ring_slice_full_write:
  assumes "xs \<noteq> []"
  shows "ring_slice (xs[s mod length xs := x]) (Suc s) (length xs) = tl (ring_slice xs s (length xs)) @ [x]"
proof -
  let ?L = "length xs"
  have L: "0 < ?L" using assms by simp
  have idx: "(Suc s + (?L - 1)) mod ?L = s mod ?L"
    using L by (metis Suc_pred' add_Suc add_Suc_right mod_add_self2)
  have "ring_slice (xs[(Suc s + (?L - 1)) mod ?L := x]) (Suc s) (Suc (?L - 1))
        = ring_slice xs (Suc s) (?L - 1) @ [x]"
    by (rule ring_slice_extend) (use L in simp)
  then show ?thesis
    using L ring_slice_tail [of ?L xs s] by (simp add: idx)
qed

text \<open>Dropping all but the youngest \<open>n\<close> elements.\<close>

definition keep_last :: "nat \<Rightarrow> 'a list \<Rightarrow> 'a list" where
  "keep_last n xs = drop (length xs - n) xs"

lemma length_keep_last [simp]: "length (keep_last n xs) = min n (length xs)"
  by (simp add: keep_last_def)

lemma set_keep_last: "set (keep_last n xs) \<subseteq> set xs"
  by (simp add: keep_last_def set_drop_subset)

lemma keep_last_all: "length xs \<le> n \<Longrightarrow> keep_last n xs = xs"
  by (simp add: keep_last_def)

lemma keep_last_full_snoc:
  "length xs = n \<Longrightarrow> 0 < n \<Longrightarrow> keep_last n (xs @ [x]) = tl xs @ [x]"
  by (cases xs) (simp_all add: keep_last_def)

lemma keep_last_snoc_keep:
  assumes "0 < n"
  shows "keep_last n (keep_last n xs @ [x]) = keep_last n (xs @ [x])"
proof (cases "length xs < n")
  case True
  then show ?thesis by (simp add: keep_last_all)
next
  case False
  then have "keep_last n (keep_last n xs @ [x]) = tl (keep_last n xs) @ [x]"
    using assms by (intro keep_last_full_snoc) simp_all
  also have "tl (keep_last n xs) = drop (Suc (length xs) - n) xs"
    using False by (simp add: keep_last_def Suc_diff_le drop_Suc tl_drop)
  finally show ?thesis using False assms by (simp add: keep_last_def)
qed

lemma ring_slice_keep_last:
  assumes "m \<le> n"
  shows "ring_slice xs (s + (n - m)) m = keep_last m (ring_slice xs s n)"
  by (rule nth_equalityI) (use assms in \<open>auto simp: keep_last_def ring_slice_nth add.assoc\<close>)

end
