(* ===== verification/Float32.thy ===== *)
theory Float32
  imports Prelude
begin

text \<open>
  The C type \<open>float\<close> of the program, as IEEE 754 binary32 with round to nearest, ties to even.

  Every finite binary32 value is an integer multiple of \<open>2^-149\<close>, the least subnormal.
  \<^term>\<open>FFin n\<close> is the value \<open>n * 2^-149\<close>, so that an operation is an exact integer
  computation followed by one rounding to 24 significant bits, and a comparison of finite
  values is a comparison of integers. Overflow gives an infinity, and an invalid operation the
  (single) NaN, for which every comparison is false. The two zeros are one value: the program
  never divides by a computed zero, the only place where it could tell them apart.
\<close>

section \<open>Values, rounding\<close>

datatype f32 = FNaN | FInf bool | FFin int

text \<open>
  \<open>ulp_unit p q\<close> is the least power of two \<open>u\<close> for which \<open>p / q\<close> has at most 24 integer bits
  when counted in units of \<open>u\<close>: the spacing of the floats around the value.
\<close>

function ulp_unit :: "int \<Rightarrow> int \<Rightarrow> int" where
  "ulp_unit p d = (if d \<le> 0 \<or> p < 16777216 * d then 1 else 2 * ulp_unit p (2 * d))"
  by pat_completeness auto
termination
  by (relation "measure (\<lambda>(p, d). nat (p - d))") auto

declare ulp_unit.simps [simp del]

definition rne :: "int \<Rightarrow> int \<Rightarrow> int" where
  "rne a b = (let f = a div b; r = a mod b
     in if 2 * r < b \<or> (2 * r = b \<and> even f) then f else f + 1)"

definition round_mag :: "int \<Rightarrow> int \<Rightarrow> int" where
  "round_mag p q = (let u = ulp_unit p q in rne p (q * u) * u)"

definition round_signed :: "int \<Rightarrow> int \<Rightarrow> int" where
  "round_signed p q = (if p < 0 then - round_mag (- p) q else round_mag p q)"

definition f32_max_units :: int where
  "f32_max_units = 2 ^ 277"

definition f32_of_units :: "int \<Rightarrow> f32" where
  "f32_of_units n = (if \<bar>n\<bar> < f32_max_units then FFin n else FInf (n < 0))"

text \<open>The float nearest to \<open>(p / q) * 2^-149\<close>.\<close>

definition f32_round :: "int \<Rightarrow> int \<Rightarrow> f32" where
  "f32_round p q = f32_of_units (round_signed p q)"

section \<open>Operations\<close>

definition f32_one_units :: int where
  "f32_one_units = 2 ^ 149"

text \<open>An \<open>int\<close> converted to \<open>float\<close>, and the decimal literal \<open>p / q\<close>.\<close>

definition f32_of_int :: "int \<Rightarrow> f32" where
  "f32_of_int n = f32_round (n * f32_one_units) 1"

definition f32_lit :: "int \<Rightarrow> int \<Rightarrow> f32" where
  "f32_lit p q = f32_round (p * f32_one_units) q"

fun f32_neg :: "f32 \<Rightarrow> f32" where
  "f32_neg FNaN = FNaN"
| "f32_neg (FInf s) = FInf (\<not> s)"
| "f32_neg (FFin n) = FFin (- n)"

fun f32_abs :: "f32 \<Rightarrow> f32" where
  "f32_abs FNaN = FNaN"
| "f32_abs (FInf s) = FInf False"
| "f32_abs (FFin n) = FFin \<bar>n\<bar>"

fun f32_add :: "f32 \<Rightarrow> f32 \<Rightarrow> f32" where
  "f32_add FNaN y = FNaN"
| "f32_add (FInf s) FNaN = FNaN"
| "f32_add (FFin a) FNaN = FNaN"
| "f32_add (FInf s) (FInf t) = (if s = t then FInf s else FNaN)"
| "f32_add (FInf s) (FFin b) = FInf s"
| "f32_add (FFin a) (FInf t) = FInf t"
| "f32_add (FFin a) (FFin b) = f32_round (a + b) 1"

definition f32_sub :: "f32 \<Rightarrow> f32 \<Rightarrow> f32" where
  "f32_sub x y = f32_add x (f32_neg y)"

fun f32_mul :: "f32 \<Rightarrow> f32 \<Rightarrow> f32" where
  "f32_mul FNaN y = FNaN"
| "f32_mul (FInf s) FNaN = FNaN"
| "f32_mul (FFin a) FNaN = FNaN"
| "f32_mul (FInf s) (FInf t) = FInf (s \<noteq> t)"
| "f32_mul (FInf s) (FFin b) = (if b = 0 then FNaN else FInf (s \<noteq> (b < 0)))"
| "f32_mul (FFin a) (FInf t) = (if a = 0 then FNaN else FInf ((a < 0) \<noteq> t))"
| "f32_mul (FFin a) (FFin b) = f32_round (a * b) f32_one_units"

fun f32_div :: "f32 \<Rightarrow> f32 \<Rightarrow> f32" where
  "f32_div FNaN y = FNaN"
| "f32_div (FInf s) FNaN = FNaN"
| "f32_div (FFin a) FNaN = FNaN"
| "f32_div (FInf s) (FInf t) = FNaN"
| "f32_div (FInf s) (FFin b) = FInf (s \<noteq> (b < 0))"
| "f32_div (FFin a) (FInf t) = FFin 0"
| "f32_div (FFin a) (FFin b) =
     (if b = 0 then if a = 0 then FNaN else FInf (a < 0)
      else f32_round (a * f32_one_units * sgn b) \<bar>b\<bar>)"

text \<open>
  The square root: the integer square root of the value in units carries at least 74 bits
  for a non-zero float, so its floor with a sticky half decides the rounding.
\<close>

fun isqrt :: "int \<Rightarrow> int" where
  "isqrt n = (if n \<le> 0 then 0
     else let r = 2 * isqrt (n div 4) in if (r + 1) * (r + 1) \<le> n then r + 1 else r)"

declare isqrt.simps [simp del]

fun f32_sqrt :: "f32 \<Rightarrow> f32" where
  "f32_sqrt FNaN = FNaN"
| "f32_sqrt (FInf s) = (if s then FNaN else FInf False)"
| "f32_sqrt (FFin a) =
     (if a < 0 then FNaN
      else let n = a * f32_one_units; s = isqrt n
        in f32_round (if s * s = n then 2 * s else 2 * s + 1) 2)"

text \<open>Comparisons: \<open>f32_lt x y\<close> is \<open>x < y\<close>, \<open>f32_gt x y\<close> is \<open>x > y\<close>, \<open>f32_le x y\<close> is \<open>x <= y\<close>.\<close>

fun f32_lt :: "f32 \<Rightarrow> f32 \<Rightarrow> bool" where
  "f32_lt FNaN y = False"
| "f32_lt (FInf s) FNaN = False"
| "f32_lt (FFin a) FNaN = False"
| "f32_lt (FInf s) (FInf t) = (s \<and> \<not> t)"
| "f32_lt (FInf s) (FFin b) = s"
| "f32_lt (FFin a) (FInf t) = (\<not> t)"
| "f32_lt (FFin a) (FFin b) = (a < b)"

abbreviation f32_gt :: "f32 \<Rightarrow> f32 \<Rightarrow> bool" where
  "f32_gt x y \<equiv> f32_lt y x"

definition f32_le :: "f32 \<Rightarrow> f32 \<Rightarrow> bool" where
  "f32_le x y = (f32_lt x y \<or> (x \<noteq> FNaN \<and> x = y))"

abbreviation f32_0 :: f32 where
  "f32_0 \<equiv> FFin 0"

section \<open>Rounding to nearest even\<close>

lemma rne_bounds:
  assumes "0 < b"
  shows "2 * b * rne a b \<le> 2 * a + b" and "2 * a - b \<le> 2 * b * rne a b"
proof -
  define f r where "f = a div b" and "r = a mod b"
  have a: "a = b * f + r" "0 \<le> r" "r < b" using assms by (simp_all add: f_def r_def)
  have "rne a b = f \<and> 2 * r \<le> b \<or> rne a b = f + 1 \<and> b \<le> 2 * r"
    by (auto simp: rne_def Let_def f_def r_def)
  then show "2 * b * rne a b \<le> 2 * a + b" and "2 * a - b \<le> 2 * b * rne a b"
    using a(2,3) unfolding a(1) by (auto simp: algebra_simps)
qed

lemma rne_exact [simp]: "0 < b \<Longrightarrow> rne (m * b) b = m"
  by (simp add: rne_def)

lemma rne_1 [simp]: "rne a 1 = a"
  using rne_exact [of 1 a] by simp

lemma rne_mono:
  assumes "0 < b" "0 < d" "a * d \<le> c * b"
  shows "rne a b \<le> rne c d"
proof -
  define f r where "f = a div b" and "r = a mod b"
  define g t where "g = c div d" and "t = c mod d"
  have a: "a = f * b + r" "0 \<le> r" "r < b" using assms by (simp_all add: f_def r_def)
  have c: "c = g * d + t" "0 \<le> t" "t < d" using assms by (simp_all add: g_def t_def)
  have key: "f * b * d + r * d \<le> g * b * d + t * b"
    using assms(3) a(1) c(1) by (simp add: algebra_simps)
  have "f \<le> g"
  proof (rule ccontr)
    assume "\<not> f \<le> g"
    then have "(g + 1) * (b * d) \<le> f * (b * d)"
      using assms by (intro mult_right_mono) auto
    moreover have "t * b < d * b" using c assms by simp
    moreover have "0 \<le> r * d" using a assms by simp
    ultimately show False using key by (simp add: algebra_simps)
  qed
  moreover have "rne a b \<le> f + 1" "f \<le> rne a b" "g \<le> rne c d"
    by (auto simp: rne_def Let_def f_def g_def)
  moreover have "rne a b \<le> rne c d" if fg: "f = g"
  proof -
    have rt: "r * d \<le> t * b" using key fg by simp
    have up: "rne a b = f + 1 \<Longrightarrow> rne c d = f + 1"
    proof -
      assume "rne a b = f + 1"
      then have A: "b < 2 * r \<or> b = 2 * r \<and> odd f"
        by (auto simp: rne_def Let_def f_def r_def split: if_splits)
      then have "b * d \<le> 2 * r * d" using assms by (intro mult_right_mono) auto
      then have B: "d * b \<le> (2 * t) * b" using rt by (simp add: algebra_simps)
      then have C: "d \<le> 2 * t" using assms(1) by (simp add: mult_le_cancel_right)
      have D: "d < 2 * t" if "b < 2 * r"
      proof -
        have "b * d < 2 * r * d" using that assms by (intro mult_strict_right_mono) auto
        then have "d * b < (2 * t) * b" using rt by (simp add: algebra_simps)
        then show ?thesis using assms(1) by (simp add: mult_less_cancel_right)
      qed
      from A C D show "rne c d = f + 1"
        by (auto simp: rne_def Let_def fg g_def t_def)
    qed
    then show ?thesis using calculation fg by (cases "rne a b = f + 1") auto
  qed
  ultimately show ?thesis by linarith
qed

section \<open>The spacing of the floats\<close>

lemma ulp_unit_stop: "p < 16777216 * d \<Longrightarrow> ulp_unit p d = 1"
  by (subst ulp_unit.simps) simp

lemma ulp_unit_step: "0 < d \<Longrightarrow> 16777216 * d \<le> p \<Longrightarrow> ulp_unit p d = 2 * ulp_unit p (2 * d)"
  by (subst ulp_unit.simps) simp

lemma ulp_unit_power: "\<exists>k::nat. ulp_unit p d = 2 ^ k"
proof (induction p d rule: ulp_unit.induct)
  case (1 p d)
  show ?case
  proof (cases "d \<le> 0 \<or> p < 16777216 * d")
    case True
    then have "ulp_unit p d = 2 ^ 0" by (subst ulp_unit.simps) simp
    then show ?thesis by blast
  next
    case False
    with "1.IH" obtain k :: nat where "ulp_unit p (2 * d) = 2 ^ k" by blast
    with False have "ulp_unit p d = 2 ^ Suc k" by (simp add: ulp_unit_step)
    then show ?thesis by blast
  qed
qed

lemma ulp_unit_pos [simp]: "0 < ulp_unit p d"
  using ulp_unit_power [of p d] by auto

lemma ulp_unit_spec:
  "0 < d \<Longrightarrow> p < 16777216 * (d * ulp_unit p d)
     \<and> (ulp_unit p d = 1 \<or> 16777216 * (d * ulp_unit p d) \<le> 2 * p)"
proof (induction p d rule: ulp_unit.induct)
  case (1 p d)
  show ?case
  proof (cases "p < 16777216 * d")
    case True
    then show ?thesis by (simp add: ulp_unit_stop)
  next
    case False
    with "1.IH" "1.prems"
    have ih: "p < 16777216 * (2 * d * ulp_unit p (2 * d))"
      "ulp_unit p (2 * d) = 1 \<or> 16777216 * (2 * d * ulp_unit p (2 * d)) \<le> 2 * p"
      by auto
    have u: "ulp_unit p d = 2 * ulp_unit p (2 * d)"
      using False "1.prems" by (intro ulp_unit_step) auto
    define v where "v = ulp_unit p (2 * d)"
    have "16777216 * (d * v) \<le> p" if "v = 1" using False that by simp
    then show ?thesis using ih unfolding u v_def [symmetric] by (auto simp: mult.assoc)
  qed
qed

lemma power2_int_less_double:
  assumes "(2::int) ^ m < 2 ^ n"
  shows "2 * (2::int) ^ m \<le> 2 ^ n"
proof -
  from assms have "m < n" by simp
  then have "(2::int) ^ Suc m \<le> 2 ^ n" by (intro power_increasing) auto
  then show ?thesis by simp
qed

lemma ulp_unit_less_double:
  assumes "ulp_unit p d < ulp_unit p' d'"
  shows "2 * ulp_unit p d \<le> ulp_unit p' d'"
proof -
  obtain m n :: nat where "ulp_unit p d = 2 ^ m" "ulp_unit p' d' = 2 ^ n"
    using ulp_unit_power by meson
  with assms show ?thesis using power2_int_less_double [of m n] by simp
qed

lemma ulp_unit_mono:
  assumes "0 < q" "0 < q'" "p * q' \<le> p' * q"
  shows "ulp_unit p q \<le> ulp_unit p' q'"
proof (rule ccontr)
  let ?u = "ulp_unit p q" and ?v = "ulp_unit p' q'"
  assume "\<not> ?u \<le> ?v"
  then have d: "2 * ?v \<le> ?u" by (intro ulp_unit_less_double) simp
  have u: "16777216 * (q * ?u) \<le> 2 * p"
    using ulp_unit_spec [OF assms(1), of p] d ulp_unit_pos [of p' q'] by linarith
  have v: "p' < 16777216 * (q' * ?v)" using ulp_unit_spec [OF assms(2)] by blast
  have "16777216 * (q * q') * (2 * ?v) \<le> 16777216 * (q * q') * ?u"
    using d assms by (intro mult_left_mono) auto
  also have "\<dots> \<le> 2 * p * q'" using u assms by (simp add: algebra_simps mult_left_mono)
  also have "\<dots> \<le> 2 * (p' * q)" using assms(3) by simp
  also have "\<dots> < 2 * (16777216 * (q' * ?v) * q)" using v assms(1) by simp
  finally show False by (simp add: algebra_simps)
qed

section \<open>Rounding is monotone\<close>

lemma round_mag_upper:
  assumes "0 < q"
  shows "round_mag p q \<le> 16777216 * ulp_unit p q"
proof -
  let ?u = "ulp_unit p q"
  have "rne p (q * ?u) \<le> rne (16777216 * (q * ?u)) (q * ?u)"
    using ulp_unit_spec [OF assms, of p] assms by (intro rne_mono mult_right_mono) auto
  then have "rne p (q * ?u) \<le> 16777216" using assms by simp
  then show ?thesis by (simp add: round_mag_def Let_def)
qed

lemma round_mag_lower:
  assumes "0 < q" "1 < ulp_unit p q"
  shows "8388608 * ulp_unit p q \<le> round_mag p q"
proof -
  let ?u = "ulp_unit p q"
  have "8388608 * (q * ?u) \<le> p" using ulp_unit_spec [OF assms(1), of p] assms(2) by auto
  then have "rne (8388608 * (q * ?u)) (q * ?u) \<le> rne p (q * ?u)"
    using assms(1) by (intro rne_mono mult_right_mono) (auto intro: less_imp_le)
  then have "8388608 \<le> rne p (q * ?u)" using assms by simp
  then show ?thesis by (simp add: round_mag_def Let_def)
qed

lemma round_mag_mono:
  assumes "0 < q" "0 < q'" "p * q' \<le> p' * q"
  shows "round_mag p q \<le> round_mag p' q'"
proof (cases "ulp_unit p q = ulp_unit p' q'")
  case True
  let ?u = "ulp_unit p' q'"
  have "p * (q' * ?u) \<le> p' * (q * ?u)"
    using assms(3) mult_right_mono [of "p * q'" "p' * q" ?u] by (simp add: algebra_simps)
  then have "rne p (q * ?u) \<le> rne p' (q' * ?u)"
    using assms by (intro rne_mono) auto
  then show ?thesis using True by (simp add: round_mag_def Let_def mult_right_mono)
next
  case False
  then have d: "2 * ulp_unit p q \<le> ulp_unit p' q'"
    using ulp_unit_mono [OF assms] by (intro ulp_unit_less_double) simp
  then have "8388608 * ulp_unit p' q' \<le> round_mag p' q'"
    using ulp_unit_pos [of p q] by (intro round_mag_lower assms) linarith
  then show ?thesis using round_mag_upper [OF assms(1), of p] d by linarith
qed

lemma round_mag_0 [simp]: "0 < q \<Longrightarrow> round_mag 0 q = 0"
  by (simp add: round_mag_def ulp_unit_stop rne_def)

lemma round_mag_nonneg: "0 < q \<Longrightarrow> 0 \<le> p \<Longrightarrow> 0 \<le> round_mag p q"
  using round_mag_mono [of q q 0 p] by simp

lemma round_signed_mono:
  assumes "0 < q" "0 < q'" "p * q' \<le> p' * q"
  shows "round_signed p q \<le> round_signed p' q'"
proof -
  have "round_mag (- p') q' \<le> round_mag (- p) q"
    using assms by (intro round_mag_mono) (auto simp: algebra_simps)
  moreover have "round_mag p q \<le> round_mag p' q'"
    by (rule round_mag_mono) (use assms in auto)
  moreover have "0 \<le> p' \<Longrightarrow> 0 \<le> round_mag p' q'" "p < 0 \<Longrightarrow> 0 \<le> round_mag (- p) q"
    using assms by (auto intro: round_mag_nonneg)
  moreover have "p < 0" if "p' < 0"
  proof (rule ccontr)
    assume "\<not> p < 0"
    then have "0 \<le> p * q'" using assms(2) by simp
    moreover have "p' * q < 0" using that assms(1) by (simp add: mult_neg_pos)
    ultimately show False using assms(3) by simp
  qed
  ultimately show ?thesis by (auto simp: round_signed_def)
qed

section \<open>Representable values\<close>

text \<open>
  A finite value is a binary32 number when it is its own rounding and below the overflow
  threshold. Every operation returns such a value, so this is an invariant of every \<open>float\<close>
  the program holds.
\<close>

fun f32_ok :: "f32 \<Rightarrow> bool" where
  "f32_ok (FFin n) = (\<bar>n\<bar> < f32_max_units \<and> round_mag \<bar>n\<bar> 1 = \<bar>n\<bar>)"
| "f32_ok x = True"

lemma round_mag_scaled:
  assumes "0 \<le> m" "m \<le> 16777216"
  shows "round_mag (m * 2 ^ k) 1 = m * 2 ^ k"
proof -
  let ?n = "m * 2 ^ k" and ?u = "ulp_unit (m * 2 ^ k) 1"
  obtain j :: nat where j: "?u = 2 ^ j" using ulp_unit_power by blast
  have spec: "?u = 1 \<or> 8388608 * ?u \<le> ?n"
    using ulp_unit_spec [of 1 ?n] by auto
  have "?u dvd ?n"
  proof (cases "?u = 1")
    case False
    with spec have le: "(2::int) ^ (23 + j) \<le> ?n" by (simp add: j power_add)
    show ?thesis
    proof (cases "m = 16777216")
      case True
      then have n: "?n = 2 ^ (24 + k)" by (simp add: power_add)
      with le have "j \<le> 24 + k" by simp
      then have "(2::int) ^ j dvd 2 ^ (24 + k)" by (rule le_imp_power_dvd)
      then show ?thesis using j n by simp
    next
      case False
      then have "?n < 2 ^ (24 + k)" using assms by (simp add: power_add)
      with le have "(2::int) ^ (23 + j) < 2 ^ (24 + k)" by (rule le_less_trans)
      then have "j \<le> k" by simp
      then show ?thesis unfolding j by (intro dvd_mult le_imp_power_dvd)
    qed
  qed simp
  then show ?thesis
    by (auto simp: round_mag_def Let_def elim!: dvdE) (metis mult.commute rne_exact ulp_unit_pos)
qed

lemma round_mag_idem:
  assumes "0 < q" "0 \<le> p"
  shows "round_mag (round_mag p q) 1 = round_mag p q"
proof -
  let ?u = "ulp_unit p q" and ?m = "rne p (q * ulp_unit p q)"
  obtain k :: nat where k: "?u = 2 ^ k" using ulp_unit_power by blast
  have r: "round_mag p q = ?m * 2 ^ k" by (simp add: round_mag_def Let_def k)
  have "?m * ?u \<le> 16777216 * ?u"
    using round_mag_upper [OF assms(1), of p] by (simp add: round_mag_def Let_def)
  then have "?m \<le> 16777216" by simp
  moreover have "0 \<le> ?m"
  proof -
    have "0 < q * ?u" using assms by simp
    moreover have "0 \<le> p * (q * ?u)" using assms by (intro mult_nonneg_nonneg) (auto intro: less_imp_le)
    ultimately have "rne 0 (q * ?u) \<le> ?m" by (intro rne_mono) auto
    then show ?thesis using rne_exact [of "q * ?u" 0] \<open>0 < q * ?u\<close> by simp
  qed
  ultimately show ?thesis unfolding r by (intro round_mag_scaled)
qed

lemma round_signed_mag: "\<bar>round_signed p q\<bar> = round_mag \<bar>p\<bar> q" if "0 < q"
  using round_mag_nonneg [of q "- p"] round_mag_nonneg [of q p] that
  by (auto simp: round_signed_def)

lemma f32_round_ok [simp]: "0 < q \<Longrightarrow> f32_ok (f32_round p q)"
  by (simp add: f32_round_def f32_of_units_def round_signed_mag round_mag_idem)

lemma f32_one_units_pos [simp]: "0 < f32_one_units" "0 \<le> f32_one_units"
  by (simp_all add: f32_one_units_def)

lemma f32_ok_0 [simp]: "f32_ok f32_0"
  by (simp add: f32_max_units_def)

lemma f32_of_int_ok [simp]: "f32_ok (f32_of_int n)"
  by (simp add: f32_of_int_def)

lemma f32_lit_ok [simp]: "0 < q \<Longrightarrow> f32_ok (f32_lit p q)"
  by (simp add: f32_lit_def)

lemma f32_neg_ok [simp]: "f32_ok (f32_neg x) = f32_ok x"
  by (cases x) simp_all

lemma f32_abs_ok [simp]: "f32_ok x \<Longrightarrow> f32_ok (f32_abs x)"
  by (cases x) simp_all

lemma f32_add_ok [simp]: "f32_ok (f32_add x y)"
  by (cases x; cases y) simp_all

lemma f32_sub_ok [simp]: "f32_ok (f32_sub x y)"
  by (simp add: f32_sub_def)

lemma f32_mul_ok [simp]: "f32_ok (f32_mul x y)"
  by (cases x; cases y) simp_all

lemma f32_div_ok [simp]: "f32_ok (f32_div x y)"
  by (cases x; cases y) (simp_all del: f32_ok.simps(1))

lemma f32_sqrt_ok [simp]: "f32_ok (f32_sqrt x)"
  by (cases x) (simp_all add: Let_def)

lemma f32_round_id: "f32_ok (FFin n) \<Longrightarrow> f32_round n 1 = FFin n"
  by (auto simp: f32_round_def f32_of_units_def round_signed_def)

section \<open>Order\<close>

lemma f32_lt_irrefl [simp]: "\<not> f32_lt x x"
  by (cases x) simp_all

lemma f32_lt_trans: "f32_lt x y \<Longrightarrow> f32_lt y z \<Longrightarrow> f32_lt x z"
  by (cases x; cases y; cases z) auto

lemma f32_lt_not_nan: "f32_lt x y \<Longrightarrow> x \<noteq> FNaN \<and> y \<noteq> FNaN"
  by (cases x; cases y) auto

lemma f32_le_refl: "x \<noteq> FNaN \<Longrightarrow> f32_le x x"
  by (simp add: f32_le_def)

lemma f32_le_trans: "f32_le x y \<Longrightarrow> f32_le y z \<Longrightarrow> f32_le x z"
  by (auto simp: f32_le_def intro: f32_lt_trans)

lemma f32_not_lt: "x \<noteq> FNaN \<Longrightarrow> y \<noteq> FNaN \<Longrightarrow> (\<not> f32_lt x y) = f32_le y x"
  by (cases x; cases y) (auto simp: f32_le_def)

lemma f32_lt_le_trans: "f32_lt x y \<Longrightarrow> f32_le y z \<Longrightarrow> f32_lt x z"
  by (auto simp: f32_le_def intro: f32_lt_trans)

lemma f32_le_lt_trans: "f32_le x y \<Longrightarrow> f32_lt y z \<Longrightarrow> f32_lt x z"
  by (auto simp: f32_le_def intro: f32_lt_trans)

lemma f32_le_fin [simp]: "f32_le (FFin a) (FFin b) = (a \<le> b)"
  by (auto simp: f32_le_def)

lemma f32_of_units_mono: "m \<le> n \<Longrightarrow> f32_le (f32_of_units m) (f32_of_units n)"
  by (auto simp: f32_of_units_def f32_le_def f32_max_units_def)

lemma f32_round_mono:
  "0 < q \<Longrightarrow> 0 < q' \<Longrightarrow> p * q' \<le> p' * q \<Longrightarrow> f32_le (f32_round p q) (f32_round p' q')"
  by (simp add: f32_round_def f32_of_units_mono round_signed_mono)

lemma f32_round_not_nan [simp]: "f32_round p q \<noteq> FNaN"
  by (simp add: f32_round_def f32_of_units_def)

text \<open>
  Monotonicity of the operations the program composes: the result moves with the operand as
  the exact result does.
\<close>

lemma f32_of_int_mono: "m \<le> n \<Longrightarrow> f32_le (f32_of_int m) (f32_of_int n)"
  unfolding f32_of_int_def by (rule f32_round_mono) (simp_all add: f32_one_units_def)

lemma f32_le_neg_inf: "x \<noteq> FNaN \<Longrightarrow> f32_le (FInf True) x"
  by (cases x) (auto simp: f32_le_def)

lemma f32_le_pos_inf: "x \<noteq> FNaN \<Longrightarrow> f32_le x (FInf False)"
  by (cases x) (auto simp: f32_le_def)

text \<open>A pair of comparable values: an infinity at one end, or two finite ones.\<close>

lemma f32_le_cases:
  assumes "f32_le x y"
  obtains "x = FInf True" "y \<noteq> FNaN" | "x \<noteq> FNaN" "y = FInf False"
    | a b where "x = FFin a" "y = FFin b" "a \<le> b"
  using assms by (cases x; cases y) (auto simp: f32_le_def)

lemma f32_div_mono:
  assumes "f32_le x y" "0 < c"
  shows "f32_le (f32_div x (FFin c)) (f32_div y (FFin c))"
  using assms(1)
proof (cases rule: f32_le_cases)
  case 1
  then show ?thesis using assms(2) by (cases y) (auto intro!: f32_le_neg_inf)
next
  case 2
  then show ?thesis using assms(2) by (cases x) (auto intro!: f32_le_pos_inf)
next
  case (3 a b)
  then show ?thesis using assms(2) by (auto intro!: f32_round_mono mult_right_mono)
qed

lemma f32_mul_mono:
  assumes "f32_le x y" "0 < c"
  shows "f32_le (f32_mul x (FFin c)) (f32_mul y (FFin c))"
  using assms(1)
proof (cases rule: f32_le_cases)
  case 1
  then show ?thesis using assms(2) by (cases y) (auto intro!: f32_le_neg_inf)
next
  case 2
  then show ?thesis using assms(2) by (cases x) (auto intro!: f32_le_pos_inf)
next
  case (3 a b)
  then show ?thesis using assms(2) by (auto intro!: f32_round_mono mult_right_mono)
qed

lemma f32_add_mono:
  "a \<le> b \<Longrightarrow> c \<le> d \<Longrightarrow> f32_le (f32_add (FFin a) (FFin c)) (f32_add (FFin b) (FFin d))"
  by (auto intro!: f32_round_mono)

lemma f32_sub_mono:
  "a \<le> b \<Longrightarrow> d \<le> c \<Longrightarrow> f32_le (f32_sub (FFin a) (FFin c)) (f32_sub (FFin b) (FFin d))"
  by (auto simp: f32_sub_def intro!: f32_round_mono)

lemma f32_sub_self: "f32_sub (FFin a) (FFin a) = f32_0"
  by (simp add: f32_sub_def f32_round_def f32_of_units_def round_signed_def f32_max_units_def)

section \<open>The square root\<close>

lemma isqrt_bounds: "0 \<le> n \<Longrightarrow> 0 \<le> isqrt n \<and> isqrt n * isqrt n \<le> n \<and> n < (isqrt n + 1) * (isqrt n + 1)"
proof (induction n rule: isqrt.induct)
  case (1 n)
  show ?case
  proof (cases "n \<le> 0")
    case True
    with "1.prems" show ?thesis by (simp add: isqrt.simps)
  next
    case False
    define s where "s = isqrt (n div 4)"
    have s: "0 \<le> s" "s * s \<le> n div 4" "n div 4 < (s + 1) * (s + 1)"
      using "1.IH" False by (auto simp: s_def)
    then have "4 * (s * s) \<le> n" "n < 4 * ((s + 1) * (s + 1))" by linarith+
    moreover have "isqrt n = (if (2 * s + 1) * (2 * s + 1) \<le> n then 2 * s + 1 else 2 * s)"
      using False by (subst isqrt.simps) (simp add: s_def Let_def)
    ultimately show ?thesis using s(1) by (auto simp: algebra_simps)
  qed
qed

lemma isqrt_mono: "0 \<le> m \<Longrightarrow> m \<le> n \<Longrightarrow> isqrt m \<le> isqrt n"
proof (rule ccontr)
  assume a: "0 \<le> m" "m \<le> n" "\<not> isqrt m \<le> isqrt n"
  then have "(isqrt n + 1) * (isqrt n + 1) \<le> isqrt m * isqrt m"
    using isqrt_bounds [of n] by (intro mult_mono) auto
  with a isqrt_bounds [of m] isqrt_bounds [of n] show False by linarith
qed

lemma f32_sqrt_mono:
  assumes "0 \<le> a" "a \<le> b"
  shows "f32_le (f32_sqrt (FFin a)) (f32_sqrt (FFin b))"
proof -
  define m n where "m = a * f32_one_units" and "n = b * f32_one_units"
  define s t where "s = isqrt m" and "t = isqrt n"
  have mn: "0 \<le> m" "m \<le> n" using assms by (auto simp: m_def n_def intro: mult_right_mono)
  have st: "s \<le> t" unfolding s_def t_def by (rule isqrt_mono [OF mn])
  have "m = n" if "s = t" "t * t = n"
    using that mn isqrt_bounds [OF mn(1)] by (simp add: s_def)
  then have "(if s * s = m then 2 * s else 2 * s + 1) \<le> (if t * t = n then 2 * t else 2 * t + 1)"
    using st by (cases "s = t") auto
  then show ?thesis
    using assms by (auto simp: Let_def simp flip: m_def n_def s_def t_def intro!: f32_round_mono)
qed

section \<open>Exact results\<close>

lemma ulp_unit_scale: "0 < c \<Longrightarrow> ulp_unit (p * c) (d * c) = ulp_unit p d"
proof (induction p d rule: ulp_unit.induct)
  case (1 p d)
  have g: "(d * c \<le> 0 \<or> p * c < 16777216 * (d * c)) = (d \<le> 0 \<or> p < 16777216 * d)"
    using "1.prems" mult_less_cancel_right [of p c "16777216 * d"]
    by (auto simp: mult_le_0_iff mult.assoc)
  show ?case
  proof (cases "d \<le> 0 \<or> p < 16777216 * d")
    case True
    then show ?thesis using g by (simp add: ulp_unit.simps [of p d] ulp_unit.simps [of "p * c"])
  next
    case False
    then have "ulp_unit (p * c) (2 * d * c) = ulp_unit p (2 * d)"
      using "1.IH" "1.prems" by simp
    then show ?thesis
      using False g by (simp add: ulp_unit.simps [of p d] ulp_unit.simps [of "p * c" "d * c"] mult.assoc)
  qed
qed

lemma rne_scale: "0 < c \<Longrightarrow> rne (a * c) (b * c) = rne a b"
  by (auto simp: rne_def Let_def mult_less_cancel_right simp flip: mult.assoc)

lemma round_mag_scale: "0 < c \<Longrightarrow> round_mag (p * c) (q * c) = round_mag p q"
  using rne_scale [of c p "q * ulp_unit p q"] ulp_unit_scale [of c p q]
  by (simp add: round_mag_def Let_def mult.assoc mult.commute [of c])

lemma f32_round_scale: "0 < c \<Longrightarrow> f32_round (p * c) (q * c) = f32_round p q"
  using round_mag_scale [of c p q] round_mag_scale [of c "- p" q]
  by (simp add: f32_round_def round_signed_def mult_less_0_iff)

text \<open>A value with at most 24 significant bits is its own rounding.\<close>

lemma f32_round_exact:
  assumes "\<bar>m\<bar> \<le> 16777216" "\<bar>m * 2 ^ k\<bar> < f32_max_units"
  shows "f32_round (m * 2 ^ k) 1 = FFin (m * 2 ^ k)"
proof -
  have "round_mag \<bar>m * 2 ^ k\<bar> 1 = \<bar>m * 2 ^ k\<bar>"
    using round_mag_scaled [of "\<bar>m\<bar>" k] assms(1) by (simp add: abs_mult)
  then show ?thesis using assms(2) by (intro f32_round_id) simp
qed

section \<open>Evaluation of closed terms\<close>

lemmas f32_eval =
  f32_lit_def f32_of_int_def f32_round_def round_signed_def round_mag_def f32_of_units_def
  f32_max_units_def f32_one_units_def ulp_unit_stop ulp_unit_step rne_def f32_sub_def Let_def

end
