(* ===== verification/Mq_Names.thy ===== *)
theory Mq_Names
  imports Prelude
begin

text \<open>
  \<open>src/mq_names.h\<close>: the identifiers every module shares. The enumerators keep the order of the
  header, which the \<open>linorder\<close> instance below makes available; \<open>SENSOR_COUNT\<close> stands for
  every value of the enumeration that is not a sensor.
\<close>

section \<open>Sensor identifiers, fault classes, sensor states\<close>

datatype sensor_id = SENSOR_US1 | SENSOR_US2 | SENSOR_IMU1 | SENSOR_IMU2 | SENSOR_COUNT

datatype fault_type = FAULT_NONE | FAULT_DELAYED | FAULT_STUCK | FAULT_NOISY | FAULT_CONTRADICTORY

datatype sensor_state = STATE_HEALTHY | STATE_SUSPECT | STATE_FAULTED | STATE_EXCLUDED
  | STATE_PROBING | STATE_VALIDATING

fun sensor_redundant_pair :: "sensor_id \<Rightarrow> sensor_id" where
  "sensor_redundant_pair SENSOR_US1 = SENSOR_US2"
| "sensor_redundant_pair SENSOR_US2 = SENSOR_US1"
| "sensor_redundant_pair SENSOR_IMU1 = SENSOR_IMU2"
| "sensor_redundant_pair SENSOR_IMU2 = SENSOR_IMU1"
| "sensor_redundant_pair SENSOR_COUNT = SENSOR_COUNT"

fun sensor_name :: "sensor_id \<Rightarrow> string" where
  "sensor_name SENSOR_US1 = ''US1''"
| "sensor_name SENSOR_US2 = ''US2''"
| "sensor_name SENSOR_IMU1 = ''IMU1''"
| "sensor_name SENSOR_IMU2 = ''IMU2''"
| "sensor_name SENSOR_COUNT = ''UNKNOWN''"

section \<open>Enumeration values\<close>

fun sensor_id_value :: "sensor_id \<Rightarrow> nat" where
  "sensor_id_value SENSOR_US1 = 0"
| "sensor_id_value SENSOR_US2 = 1"
| "sensor_id_value SENSOR_IMU1 = 2"
| "sensor_id_value SENSOR_IMU2 = 3"
| "sensor_id_value SENSOR_COUNT = 4"

lemma sensor_id_value_inject: "sensor_id_value a = sensor_id_value b \<Longrightarrow> a = b"
  by (cases a; cases b) simp_all

instantiation sensor_id :: linorder
begin

definition less_eq_sensor_id :: "sensor_id \<Rightarrow> sensor_id \<Rightarrow> bool" where
  "less_eq_sensor_id a b = (sensor_id_value a \<le> sensor_id_value b)"

definition less_sensor_id :: "sensor_id \<Rightarrow> sensor_id \<Rightarrow> bool" where
  "less_sensor_id a b = (sensor_id_value a < sensor_id_value b)"

instance
  by standard (auto simp: less_eq_sensor_id_def less_sensor_id_def intro: sensor_id_value_inject)

end

text \<open>The identifiers below \<open>SENSOR_COUNT\<close> are the sensors.\<close>

definition real_sensor :: "sensor_id \<Rightarrow> bool" where
  "real_sensor i = (i < SENSOR_COUNT)"

lemma real_sensor_iff: "real_sensor i = (i \<noteq> SENSOR_COUNT)"
  by (cases i) (simp_all add: real_sensor_def less_sensor_id_def)

lemma sensor_redundant_pair_invol [simp]:
  "sensor_redundant_pair (sensor_redundant_pair i) = i"
  by (cases i) simp_all

lemma sensor_redundant_pair_neq: "real_sensor i \<Longrightarrow> sensor_redundant_pair i \<noteq> i"
  by (cases i) (simp_all add: real_sensor_iff)

lemma real_sensor_pair [simp]: "real_sensor (sensor_redundant_pair i) = real_sensor i"
  by (cases i) (simp_all add: real_sensor_iff)

end
