(* ===== verification/Sensor_Buffer.thy ===== *)
theory Sensor_Buffer
  imports Float32 Mq_Names
begin

text \<open>
  \<open>src/sensor_buffer.c\<close>: the 10-sample circular history each sensor owns.

  A pointer argument that the code checks against \<open>NULL\<close> is an \<open>option\<close>; an output pointer is
  the boolean "it is not \<open>NULL\<close>", and what is stored through it is part of the result. The
  mutex makes each operation atomic, so an operation is one function here; of the mutex itself
  the model keeps whether it is initialised, with the result of \<open>pthread_mutex_init\<close> as an
  argument. The abstraction \<open>history\<close> reads the ring oldest first.
\<close>

section \<open>Data\<close>

definition SENSOR_BUFFER_LEN :: int where
  "SENSOR_BUFFER_LEN = 10"

definition SENSOR_MAX_VALUES :: int where
  "SENSOR_MAX_VALUES = 6"

record sensor_sample =
  smp_sensor_id :: sensor_id
  timestamp_us :: u64
  sequence :: u32
  value_count :: u8
  "value" :: "f32 list"

datatype mutex = Mutex_Uninit | Mutex_Ready

record sensor_buffer =
  buf_sensor_id :: sensor_id
  samples :: "sensor_sample list"
  write_index :: u8
  sample_count :: u8
  next_sequence :: u32
  expected_period_us :: u32
  lock :: mutex

text \<open>The structures after \<open>memset(..., 0, ...)\<close>.\<close>

definition zero_sample :: sensor_sample where
  "zero_sample = \<lparr>smp_sensor_id = SENSOR_US1, timestamp_us = 0, sequence = 0, value_count = 0,
     value = replicate (nat SENSOR_MAX_VALUES) f32_0\<rparr>"

definition zero_buffer :: sensor_buffer where
  "zero_buffer = \<lparr>buf_sensor_id = SENSOR_US1, samples = replicate (nat SENSOR_BUFFER_LEN) zero_sample,
     write_index = 0, sample_count = 0, next_sequence = 0, expected_period_us = 0,
     lock = Mutex_Uninit\<rparr>"

section \<open>Operations\<close>

definition sensor_buffer_init ::
  "int \<Rightarrow> sensor_buffer option \<Rightarrow> sensor_id \<Rightarrow> u32 \<Rightarrow> int \<times> sensor_buffer option" where
  "sensor_buffer_init mutex_rc buf sid period =
     (case buf of
        None \<Rightarrow> (-1, None)
      | Some _ \<Rightarrow>
          let b = zero_buffer\<lparr>buf_sensor_id := sid, expected_period_us := period\<rparr>
          in if mutex_rc \<noteq> 0 then (-1, Some b) else (0, Some (b\<lparr>lock := Mutex_Ready\<rparr>)))"

definition sensor_buffer_destroy :: "sensor_buffer option \<Rightarrow> sensor_buffer option" where
  "sensor_buffer_destroy buf = map_option (\<lambda>b. b\<lparr>lock := Mutex_Uninit\<rparr>) buf"

text \<open>
  The critical section of \<open>sensor_buffer_write\<close>. \<open>memcpy\<close> overwrites the first
  \<open>value_count\<close> entries of the slot's array and leaves the others as they were.
\<close>

definition store_slot :: "sensor_buffer \<Rightarrow> u64 \<Rightarrow> f32 list \<Rightarrow> u8 \<Rightarrow> sensor_sample" where
  "store_slot b ts vs vc =
     (samples b ! unat (write_index b))
       \<lparr>smp_sensor_id := buf_sensor_id b, timestamp_us := ts, sequence := next_sequence b,
        value_count := vc,
        value := take (unat vc) vs @ drop (unat vc) (value (samples b ! unat (write_index b)))\<rparr>"

definition store_sample :: "sensor_buffer \<Rightarrow> u64 \<Rightarrow> f32 list \<Rightarrow> u8 \<Rightarrow> sensor_buffer" where
  "store_sample b ts vs vc =
     b\<lparr>samples := (samples b)[unat (write_index b) := store_slot b ts vs vc],
       next_sequence := next_sequence b + 1,
       write_index := word_of_int (c_rem (uint (write_index b) + 1) SENSOR_BUFFER_LEN),
       sample_count := (if uint (sample_count b) < SENSOR_BUFFER_LEN then sample_count b + 1
                        else sample_count b)\<rparr>"

definition sensor_buffer_write ::
  "sensor_buffer option \<Rightarrow> u64 \<Rightarrow> f32 list option \<Rightarrow> u8 \<Rightarrow> int \<times> sensor_buffer option" where
  "sensor_buffer_write buf ts values vc =
     (case (buf, values) of
        (Some b, Some vs) \<Rightarrow>
          if vc = 0 \<or> uint vc > SENSOR_MAX_VALUES then (-1, Some b)
          else (0, Some (store_sample b ts vs vc))
      | _ \<Rightarrow> (-1, buf))"

text \<open>The samples copied to \<open>out\<close>; their number is what is stored in \<open>*out_count\<close>.\<close>

definition sensor_buffer_read_history ::
  "sensor_buffer option \<Rightarrow> bool \<Rightarrow> u8 \<Rightarrow> bool \<Rightarrow> sensor_sample list option" where
  "sensor_buffer_read_history buf out max_out out_count =
     (case buf of
        None \<Rightarrow> None
      | Some b \<Rightarrow>
          if \<not> out \<or> \<not> out_count then None
          else
            let count = (if sample_count b > max_out then max_out else sample_count b);
                start = word_of_int (c_rem (uint (write_index b) + SENSOR_BUFFER_LEN - uint count)
                          SENSOR_BUFFER_LEN) :: u8
            in Some (map (\<lambda>i. samples b ! unat (word_of_int
                       (c_rem (uint start + int i) SENSOR_BUFFER_LEN) :: u8)) [0..<unat count]))"

definition latest_idx :: "sensor_buffer \<Rightarrow> u8" where
  "latest_idx b = word_of_int (c_rem (uint (write_index b) + SENSOR_BUFFER_LEN - 1) SENSOR_BUFFER_LEN)"

definition sensor_buffer_get_latest :: "sensor_buffer option \<Rightarrow> bool \<Rightarrow> sensor_sample option" where
  "sensor_buffer_get_latest buf out =
     (case buf of
        None \<Rightarrow> None
      | Some b \<Rightarrow>
          if \<not> out then None
          else if sample_count b = 0 then None
          else Some (samples b ! unat (latest_idx b)))"

definition sensor_buffer_count :: "sensor_buffer option \<Rightarrow> u8" where
  "sensor_buffer_count buf = (case buf of None \<Rightarrow> 0 | Some b \<Rightarrow> sample_count b)"

definition sensor_buffer_expected_period :: "sensor_buffer option \<Rightarrow> u32" where
  "sensor_buffer_expected_period buf = (case buf of None \<Rightarrow> 0 | Some b \<Rightarrow> expected_period_us b)"

definition sensor_buffer_last_timestamp :: "sensor_buffer option \<Rightarrow> u64" where
  "sensor_buffer_last_timestamp buf =
     (case buf of
        None \<Rightarrow> 0
      | Some b \<Rightarrow> if sample_count b > 0 then timestamp_us (samples b ! unat (latest_idx b)) else 0)"

section \<open>Well-formed buffers and the history they hold\<close>

text \<open>The slots that hold samples, oldest first, and what a reader sees of a slot.\<close>

definition ring_of :: "sensor_buffer \<Rightarrow> sensor_sample list" where
  "ring_of b = ring_slice (samples b) (unat (write_index b) + 10 - unat (sample_count b))
     (unat (sample_count b))"

record reading =
  rd_sensor :: sensor_id
  rd_time :: u64
  rd_seq :: u32
  rd_values :: "f32 list"

definition reading_of :: "sensor_sample \<Rightarrow> reading" where
  "reading_of s = \<lparr>rd_sensor = smp_sensor_id s, rd_time = timestamp_us s, rd_seq = sequence s,
     rd_values = take (unat (value_count s)) (value s)\<rparr>"

definition history :: "sensor_buffer \<Rightarrow> reading list" where
  "history b = map reading_of (ring_of b)"

definition sample_ok :: "sensor_sample \<Rightarrow> bool" where
  "sample_ok s = (length (value s) = 6 \<and> list_all f32_ok (value s))"

definition buffer_inv :: "sensor_buffer \<Rightarrow> bool" where
  "buffer_inv b =
     (length (samples b) = 10 \<and> unat (write_index b) < 10 \<and> unat (sample_count b) \<le> 10
      \<and> list_all sample_ok (samples b)
      \<and> list_all (\<lambda>s. 1 \<le> unat (value_count s) \<and> unat (value_count s) \<le> 6
                      \<and> smp_sensor_id s = buf_sensor_id b) (ring_of b))"

text \<open>What \<open>sensor_buffer_write\<close> may be called with.\<close>

definition write_args_ok :: "f32 list \<Rightarrow> u8 \<Rightarrow> bool" where
  "write_args_ok vs vc = (1 \<le> unat vc \<and> unat vc \<le> 6 \<and> unat vc \<le> length vs \<and> list_all f32_ok vs)"

lemma length_history [simp]: "length (history b) = unat (sample_count b)"
  by (simp add: history_def ring_of_def)

lemma ring_index:
  assumes "0 \<le> x" shows "unat (word_of_int (c_rem x 10) :: u8) = nat x mod 10"
proof -
  have "x mod 10 < 10" "0 \<le> x mod 10" by simp_all
  with assms show ?thesis by (simp add: unat_word_of_int_small nat_mod_distrib)
qed

lemma write_index_store:
  "unat (write_index (store_sample b ts vs vc)) = (unat (write_index b) + 1) mod 10"
  by (simp add: store_sample_def SENSOR_BUFFER_LEN_def ring_index nat_add_distrib del: c_rem_nonneg)

lemma sample_count_store:
  "unat (sample_count b) \<le> 10
     \<Longrightarrow> unat (sample_count (store_sample b ts vs vc)) = min 10 (Suc (unat (sample_count b)))"
  by (auto simp: store_sample_def SENSOR_BUFFER_LEN_def uint_less_numeral_iff u8_inc_unat)

lemma samples_store:
  "samples (store_sample b ts vs vc) = (samples b)[unat (write_index b) := store_slot b ts vs vc]"
  by (simp add: store_sample_def)

text \<open>The ring after a write is the old ring with the new slot appended, cut to ten.\<close>

lemma ring_of_store:
  assumes "length (samples b) = 10" "unat (write_index b) < 10" "unat (sample_count b) \<le> 10"
  shows "ring_of (store_sample b ts vs vc) = keep_last 10 (ring_of b @ [store_slot b ts vs vc])"
proof -
  define w n x where "w = unat (write_index b)" and "n = unat (sample_count b)"
    and "x = store_slot b ts vs vc"
  have len: "length ((samples b)[w := x]) = 10" using assms(1) by simp
  have slice: "ring_of (store_sample b ts vs vc)
      = ring_slice ((samples b)[w := x]) ((w + 1) mod 10 + 10 - min 10 (Suc n)) (min 10 (Suc n))"
    using assms(3)
    by (simp add: ring_of_def write_index_store sample_count_store samples_store w_def n_def x_def)
  have old: "ring_of b = ring_slice (samples b) (w + 10 - n) n"
    by (simp add: ring_of_def w_def n_def)
  show ?thesis
  proof (cases "n < 10")
    case True
    have "((w + 1) mod 10 + 10 - Suc n) mod 10 = (w + 10 - n) mod 10"
      using True assms(2) by (cases "w = 9") (auto simp: w_def mod_if)
    then have "ring_of (store_sample b ts vs vc) = ring_slice ((samples b)[w := x]) (w + 10 - n) (Suc n)"
      using True len ring_slice_mod [of "(samples b)[w := x]"] unfolding slice
      by (metis Suc_leI min.absorb2)
    also have "w = (w + 10 - n + n) mod length (samples b)"
      using True assms(1,2) by (simp add: w_def)
    then have "ring_slice ((samples b)[w := x]) (w + 10 - n) (Suc n) = ring_of b @ [x]"
      using ring_slice_extend [of n "samples b" "w + 10 - n" x] True assms(1) unfolding old by simp
    finally show ?thesis using True old by (simp add: keep_last_all x_def)
  next
    case False
    then have n: "n = 10" using assms(3) by (simp add: n_def)
    have "ring_of (store_sample b ts vs vc) = ring_slice ((samples b)[w mod 10 := x]) (Suc w) 10"
      using ring_slice_mod [of "(samples b)[w := x]" "Suc w" 10] len assms(2) unfolding slice
      by (simp add: n w_def)
    also have "\<dots> = tl (ring_of b) @ [x]"
      using ring_slice_full_write [of "samples b" w x] assms(1) unfolding old n by force
    also have "\<dots> = keep_last 10 (ring_of b @ [x])"
      by (rule keep_last_full_snoc [symmetric]) (simp_all add: old n)
    finally show ?thesis by (simp add: x_def)
  qed
qed

definition new_reading :: "sensor_buffer \<Rightarrow> u64 \<Rightarrow> f32 list \<Rightarrow> u8 \<Rightarrow> reading" where
  "new_reading b ts vs vc = \<lparr>rd_sensor = buf_sensor_id b, rd_time = ts, rd_seq = next_sequence b,
     rd_values = take (unat vc) vs\<rparr>"

lemma reading_of_store_slot:
  "unat vc \<le> length vs \<Longrightarrow> reading_of (store_slot b ts vs vc) = new_reading b ts vs vc"
  by (simp add: reading_of_def store_slot_def new_reading_def)

lemma map_keep_last: "map f (keep_last n xs) = keep_last n (map f xs)"
  by (simp add: keep_last_def drop_map)

lemma buffer_invD:
  assumes "buffer_inv b"
  shows "length (samples b) = 10" "unat (write_index b) < 10" "unat (sample_count b) \<le> 10"
  using assms by (simp_all add: buffer_inv_def)

lemma history_store:
  assumes "buffer_inv b" "unat vc \<le> length vs"
  shows "history (store_sample b ts vs vc) = keep_last 10 (history b @ [new_reading b ts vs vc])"
  using assms(2) by (simp add: history_def ring_of_store buffer_invD [OF assms(1)] map_keep_last
      reading_of_store_slot)

lemma store_slot_ok:
  assumes "buffer_inv b" "write_args_ok vs vc"
  shows "sample_ok (store_slot b ts vs vc)"
proof -
  have "sample_ok (samples b ! unat (write_index b))"
    using assms(1) by (auto simp: buffer_inv_def list_all_length)
  then show ?thesis
    using assms(2)
    by (auto simp: sample_ok_def store_slot_def write_args_ok_def list_all_iff
        dest: in_set_takeD in_set_dropD)
qed

lemma store_sample_inv:
  assumes "buffer_inv b" "write_args_ok vs vc"
  shows "buffer_inv (store_sample b ts vs vc)"
proof -
  note bd = buffer_invD [OF assms(1)]
  have "list_all sample_ok ((samples b)[unat (write_index b) := store_slot b ts vs vc])"
    using assms store_slot_ok [OF assms]
    by (auto simp: buffer_inv_def list_all_iff dest: subsetD [OF set_update_subset_insert])
  moreover have "s \<in> set (ring_of b) \<or> s = store_slot b ts vs vc"
    if "s \<in> set (ring_of (store_sample b ts vs vc))" for s
    using that set_keep_last [of 10] by (force simp: ring_of_store bd)
  moreover have "buf_sensor_id (store_sample b ts vs vc) = buf_sensor_id b"
    by (simp add: store_sample_def)
  ultimately show ?thesis
    using assms
    by (fastforce simp: buffer_inv_def write_index_store sample_count_store samples_store
        list_all_iff store_slot_def write_args_ok_def)
qed

section \<open>What the readers return\<close>

lemma latest_idx_unat:
  "unat (latest_idx b) = (unat (write_index b) + 9) mod 10"
proof -
  have e: "uint (write_index b) + SENSOR_BUFFER_LEN - 1 = int (unat (write_index b) + 9)"
    by (simp add: SENSOR_BUFFER_LEN_def)
  show ?thesis unfolding latest_idx_def e SENSOR_BUFFER_LEN_def
    by (subst ring_index) (simp_all add: nat_add_distrib add.commute)
qed

lemma ring_of_empty_iff: "ring_of b = [] \<longleftrightarrow> sample_count b = 0"
  by (simp add: ring_of_def flip: length_0_conv unat_eq_zero)

lemma last_ring_of:
  assumes "buffer_inv b" "sample_count b \<noteq> 0"
  shows "samples b ! unat (latest_idx b) = last (ring_of b)"
proof -
  define w n where "w = unat (write_index b)" and "n = unat (sample_count b)"
  have n: "0 < n" "n \<le> 10" "w < 10"
    using assms by (auto simp: n_def w_def unat_gt_0 buffer_inv_def)
  then have "last (ring_of b) = ring_of b ! (n - 1)"
    by (simp add: last_conv_nth ring_of_empty_iff assms(2)) (simp add: ring_of_def n_def)
  also have "\<dots> = samples b ! ((w + 9) mod 10)"
    using n buffer_invD(1) [OF assms(1)] by (simp add: ring_of_def ring_slice_nth add.commute flip: n_def w_def)
  finally show ?thesis by (simp add: latest_idx_unat w_def)
qed

theorem get_latest_eq:
  "buffer_inv b \<Longrightarrow> sensor_buffer_get_latest (Some b) True
     = (if ring_of b = [] then None else Some (last (ring_of b)))"
  by (simp add: sensor_buffer_get_latest_def ring_of_empty_iff last_ring_of)

theorem last_timestamp_eq:
  "buffer_inv b \<Longrightarrow> sensor_buffer_last_timestamp (Some b)
     = (if ring_of b = [] then 0 else timestamp_us (last (ring_of b)))"
  by (simp add: sensor_buffer_last_timestamp_def ring_of_empty_iff last_ring_of word_gt_0)

theorem read_history_eq:
  assumes "buffer_inv b"
  shows "sensor_buffer_read_history (Some b) True mx True = Some (keep_last (unat mx) (ring_of b))"
proof -
  define w n m where "w = unat (write_index b)" and "n = unat (sample_count b)" and "m = min n (unat mx)"
  note bd = buffer_invD [OF assms, folded w_def n_def]
  define cnt where "cnt = (if sample_count b > mx then mx else sample_count b)"
  have cnt: "unat cnt = m" by (auto simp: cnt_def m_def n_def word_less_nat_alt)
  have "uint cnt = int m" "uint (write_index b) = int w"
    using cnt by (auto simp: w_def)
  then have e: "uint (write_index b) + SENSOR_BUFFER_LEN - uint cnt = int (w + 10 - m)"
    using bd by (simp add: SENSOR_BUFFER_LEN_def m_def)
  define st :: u8 where "st = word_of_int (c_rem (int (w + 10 - m)) 10)"
  have st: "unat st = (w + 10 - m) mod 10"
    unfolding st_def by (subst ring_index) (simp_all del: of_nat_diff)
  have idx: "unat (word_of_int (c_rem (uint st + int i) 10) :: u8) = (unat st + i) mod 10" for i
    by (subst ring_index) (simp_all add: nat_add_distrib)
  have "sensor_buffer_read_history (Some b) True mx True
      = Some (map (\<lambda>i. samples b ! ((unat st + i) mod 10)) [0..<m])"
    unfolding sensor_buffer_read_history_def
    by (simp add: Let_def e idx cnt del: c_rem_nonneg
        flip: cnt_def) (simp add: SENSOR_BUFFER_LEN_def idx cnt del: c_rem_nonneg flip: st_def)
  also have "map (\<lambda>i. samples b ! ((unat st + i) mod 10)) [0..<m] = ring_slice (samples b) (w + 10 - m) m"
    using bd(1) by (simp add: ring_slice_def st mod_add_left_eq)
  also have "\<dots> = keep_last m (ring_of b)"
    using ring_slice_keep_last [of m n "samples b" "w + 10 - n"] bd
    by (simp add: ring_of_def m_def flip: w_def n_def)
  also have "\<dots> = keep_last (unat mx) (ring_of b)"
    by (simp add: keep_last_def m_def) (simp add: ring_of_def n_def min_def)
  finally show ?thesis .
qed

theorem buffer_count_eq: "unat (sensor_buffer_count (Some b)) = length (history b)"
  by (simp add: sensor_buffer_count_def)

section \<open>Initialisation and the write operation\<close>

lemma ring_of_zero [simp]: "sample_count b = 0 \<Longrightarrow> ring_of b = []"
  by (simp add: ring_of_def)

lemma zero_buffer_inv: "buffer_inv (zero_buffer\<lparr>buf_sensor_id := i, expected_period_us := p, lock := l\<rparr>)"
proof -
  have "list_all sample_ok (replicate 10 zero_sample)"
    by (auto simp: list_all_iff sample_ok_def zero_sample_def SENSOR_MAX_VALUES_def
        simp del: f32_ok.simps)
  then show ?thesis
    by (simp add: buffer_inv_def zero_buffer_def SENSOR_BUFFER_LEN_def ring_of_def)
qed

lemma sensor_buffer_init_ok:
  "sensor_buffer_init 0 (Some b0) i p
     = (0, Some (zero_buffer\<lparr>buf_sensor_id := i, expected_period_us := p, lock := Mutex_Ready\<rparr>))"
  by (simp add: sensor_buffer_init_def)

lemma history_zero_buffer:
  "history (zero_buffer\<lparr>buf_sensor_id := i, expected_period_us := p, lock := l\<rparr>) = []"
  by (simp add: history_def ring_of_def zero_buffer_def)

lemma vc_bounds: "(vc :: u8) \<noteq> 0 \<and> \<not> SENSOR_MAX_VALUES < uint vc \<longleftrightarrow> 1 \<le> unat vc \<and> unat vc \<le> 6"
  by (simp add: SENSOR_MAX_VALUES_def uint_gt_numeral_iff unat_eq_zero not_less Suc_le_eq
      flip: neq0_conv)

lemma sensor_buffer_write_Some:
  "sensor_buffer_write (Some b) ts (Some vs) vc
     = (if 1 \<le> unat vc \<and> unat vc \<le> 6 then (0, Some (store_sample b ts vs vc)) else (-1, Some b))"
  using vc_bounds [of vc] by (auto simp: sensor_buffer_write_def)

text \<open>One call of \<open>sensor_buffer_write\<close> as a step on the buffer.\<close>

definition write_into :: "u64 \<times> f32 list \<times> u8 \<Rightarrow> sensor_buffer \<Rightarrow> sensor_buffer" where
  "write_into a b = (case a of (ts, vs, vc) \<Rightarrow>
     (case snd (sensor_buffer_write (Some b) ts (Some vs) vc) of None \<Rightarrow> b | Some b' \<Rightarrow> b'))"

lemma write_into_store: "write_args_ok vs vc \<Longrightarrow> write_into (ts, vs, vc) b = store_sample b ts vs vc"
  by (simp add: write_into_def sensor_buffer_write_Some write_args_ok_def)

section \<open>The interface its readers rely on\<close>

text \<open>
  A bounded log: \<open>put\<close> appends an entry and drops what exceeds the capacity, \<open>newest\<close> is the
  last entry. The detector and the fusion engine use the buffer through these laws only.
\<close>

locale bounded_log =
  fixes inv :: "'b \<Rightarrow> bool"
    and contents :: "'b \<Rightarrow> 'v list"
    and cap :: nat
    and put :: "'a \<Rightarrow> 'b \<Rightarrow> 'b"
    and ok :: "'a \<Rightarrow> bool"
    and entry :: "'a \<Rightarrow> 'v"
    and newest :: "'b \<Rightarrow> 'v option"
  assumes cap_pos: "0 < cap"
    and inv_put: "inv b \<Longrightarrow> ok a \<Longrightarrow> inv (put a b)"
    and contents_bound: "inv b \<Longrightarrow> length (contents b) \<le> cap"
    and contents_put: "inv b \<Longrightarrow> ok a \<Longrightarrow> contents (put a b) = keep_last cap (contents b @ [entry a])"
    and newest_contents: "inv b \<Longrightarrow> newest b = (if contents b = [] then None else Some (last (contents b)))"
begin

lemma newest_put:
  assumes "inv b" "ok a"
  shows "newest (put a b) = Some (entry a)"
proof -
  have "contents (put a b) = keep_last cap (contents b @ [entry a])"
    using assms by (rule contents_put)
  moreover have "keep_last cap (contents b @ [entry a]) \<noteq> []"
    using cap_pos by (simp flip: length_0_conv)
  moreover have "last (keep_last cap (contents b @ [entry a])) = entry a"
    using cap_pos by (simp add: keep_last_def)
  ultimately show ?thesis using assms by (simp add: newest_contents inv_put)
qed

lemma put_entries:
  assumes "inv b" "ok a" "e \<in> set (contents (put a b))"
  shows "e = entry a \<or> e \<in> set (contents b)"
  using assms set_keep_last [of cap "contents b @ [entry a]"] by (auto simp: contents_put)

lemma inv_puts: "inv b \<Longrightarrow> list_all ok as \<Longrightarrow> inv (fold put as b)"
  by (induction as arbitrary: b) (auto intro: inv_put)

lemma contents_puts:
  "inv b \<Longrightarrow> list_all ok as \<Longrightarrow> contents (fold put as b) = keep_last cap (contents b @ map entry as)"
proof (induction as arbitrary: b rule: rev_induct)
  case Nil
  then show ?case by (simp add: keep_last_all contents_bound)
next
  case (snoc a as)
  then have "contents (put a (fold put as b)) = keep_last cap (keep_last cap (contents b @ map entry as) @ [entry a])"
    by (subst contents_put) (auto intro: inv_puts)
  also have "\<dots> = keep_last cap (contents b @ map entry (as @ [a]))"
    using keep_last_snoc_keep [OF cap_pos, of "contents b @ map entry as"] by simp
  finally show ?case by simp
qed

text \<open>After as many puts as the log holds, nothing older is left.\<close>

lemma contents_full_puts:
  assumes "inv b" "list_all ok as" "cap \<le> length as"
  shows "contents (fold put as b) = keep_last cap (map entry as)"
  using assms by (simp add: contents_puts keep_last_def)

lemma contents_count: "inv b \<Longrightarrow> list_all ok as \<Longrightarrow>
    length (contents (fold put as b)) = min cap (length (contents b) + length as)"
  by (simp add: contents_puts)

end

abbreviation time_values :: "reading \<Rightarrow> u64 \<times> f32 list" where
  "time_values r \<equiv> (rd_time r, rd_values r)"

definition latest_entry :: "sensor_buffer \<Rightarrow> (u64 \<times> f32 list) option" where
  "latest_entry b = map_option (\<lambda>s. time_values (reading_of s)) (sensor_buffer_get_latest (Some b) True)"

interpretation buf: bounded_log buffer_inv "\<lambda>b. map time_values (history b)" 10 write_into
  "\<lambda>(ts, vs, vc). write_args_ok vs vc" "\<lambda>(ts, vs, vc). (ts, take (unat vc) vs)" latest_entry
proof (unfold_locales, goal_cases)
  case 1
  show ?case by simp
next
  case (2 b a)
  then show ?case by (cases a) (simp add: write_into_store store_sample_inv)
next
  case (3 b)
  then show ?case by (simp add: buffer_invD)
next
  case (4 b a)
  then show ?case
    by (cases a) (simp add: write_into_store history_store write_args_ok_def map_keep_last new_reading_def)
next
  case (5 b)
  then show ?case
    by (simp add: latest_entry_def get_latest_eq history_def last_map)
qed

section \<open>Sequence numbers\<close>

text \<open>
  Read youngest first, the sequence numbers count down from the next one to be given out, with
  the wrap-around of \<open>uint32_t\<close>.
\<close>

fun counts_down :: "u32 \<Rightarrow> u32 list \<Rightarrow> bool" where
  "counts_down n [] = True"
| "counts_down n (x # xs) = (x = n - 1 \<and> counts_down (n - 1) xs)"

definition sequence_inv :: "sensor_buffer \<Rightarrow> bool" where
  "sequence_inv b = counts_down (next_sequence b) (rev (map rd_seq (history b)))"

lemma counts_down_take: "counts_down n xs \<Longrightarrow> counts_down n (take k xs)"
  by (induction n xs arbitrary: k rule: counts_down.induct) (auto simp: take_Cons split: nat.split)

lemma rev_keep_last: "rev (keep_last n xs) = take n (rev xs)"
  by (simp add: keep_last_def take_rev)

lemma sequence_inv_store:
  assumes "buffer_inv b" "unat vc \<le> length vs" "sequence_inv b"
  shows "sequence_inv (store_sample b ts vs vc)"
proof -
  have "next_sequence (store_sample b ts vs vc) = next_sequence b + 1"
    by (simp add: store_sample_def)
  moreover have "counts_down (next_sequence b + 1) (next_sequence b # rev (map rd_seq (history b)))"
    using assms(3) by (simp add: sequence_inv_def)
  then have "counts_down (next_sequence b + 1) (take 10 (next_sequence b # rev (map rd_seq (history b))))"
    by (rule counts_down_take)
  ultimately show ?thesis
    unfolding sequence_inv_def history_store [OF assms(1,2)] map_keep_last rev_keep_last
    by (simp add: new_reading_def)
qed

end
