(* ===== verification/Rpi_Gpio.thy ===== *)
theory Rpi_Gpio
  imports Float32
begin

text \<open>
  \<open>src/rpi_gpio.h\<close>: the client interface of the GPIO resource manager. The manager itself is
  not part of the repository; the header gives the constants, the enumerations, the requests and, in
  its comments, which arguments a request may have and which codes it may return. It does not say which
  pulse frequencies and percentages are valid, so the rules of pulse-width modulation, which no file
  of the program uses, are those on the pin and the mode.
\<close>

section \<open>Constants\<close>

definition GPIO_SUCCESS :: int where "GPIO_SUCCESS = 0"

definition GPIO_ERROR_NOT_CONNECTED :: int where "GPIO_ERROR_NOT_CONNECTED = -1"
definition GPIO_ERROR_MSG_NOT_SENT :: int where "GPIO_ERROR_MSG_NOT_SENT = -2"
definition GPIO_ERROR_MSG_EVENT_NOT_REGISTERED :: int where "GPIO_ERROR_MSG_EVENT_NOT_REGISTERED = -3"
definition GPIO_ERROR_INPUT_OUT_OF_RANGE :: int where "GPIO_ERROR_INPUT_OUT_OF_RANGE = -4"
definition GPIO_ERROR_CLEANING_UP :: int where "GPIO_ERROR_CLEANING_UP = -5"

text \<open>The pins \<open>GPIO0\<close> to \<open>GPIO27\<close> are the numbers below the count.\<close>

definition GPIO_COUNT :: int where "GPIO_COUNT = 28"

definition gpio_pins :: "int list" where "gpio_pins = [0 .. GPIO_COUNT - 1]"

section \<open>Enumerations\<close>

text \<open>An enumerator is an \<open>int\<close> constant, an enumeration the list of its values.\<close>

definition GPIO_IN :: int where "GPIO_IN = 0"
definition GPIO_OUT :: int where "GPIO_OUT = 1"
definition gpio_config_t :: "int list" where "gpio_config_t = [GPIO_IN, GPIO_OUT]"

definition GPIO_PUD_OFF :: int where "GPIO_PUD_OFF = 0"
definition GPIO_PUD_UP :: int where "GPIO_PUD_UP = 1"
definition GPIO_PUD_DOWN :: int where "GPIO_PUD_DOWN = 2"
definition gpio_pull_t :: "int list" where "gpio_pull_t = [GPIO_PUD_OFF, GPIO_PUD_UP, GPIO_PUD_DOWN]"

definition GPIO_LOW :: int where "GPIO_LOW = 4"
definition GPIO_HIGH :: int where "GPIO_HIGH = 8"
definition gpio_level_t :: "int list" where "gpio_level_t = [GPIO_LOW, GPIO_HIGH]"

definition GPIO_RISING :: int where "GPIO_RISING = 1"
definition GPIO_FALLING :: int where "GPIO_FALLING = 2"
definition gpio_level_change_t :: "int list" where "gpio_level_change_t = [GPIO_RISING, GPIO_FALLING]"

definition GPIO_PWM_MODE_PWM :: int where "GPIO_PWM_MODE_PWM = 0"
definition GPIO_PWM_MODE_MS :: int where "GPIO_PWM_MODE_MS = 1"
definition pwm_channel_op_mode_t :: "int list" where "pwm_channel_op_mode_t = [GPIO_PWM_MODE_PWM, GPIO_PWM_MODE_MS]"

section \<open>Requests\<close>

datatype gpio_request =
    Setup int int
  | Setup_pull int int int
  | Setup_pwm int int int
  | Set_pwm_duty_cycle int f32
  | Get_setup int
  | Output int int
  | Input int
  | Add_event_detect int int int int
  | Cleanup

text \<open>An event of interest is a non-empty combination of flags of the last two enumerations.\<close>

definition event_flags :: "int list" where
  "event_flags = gpio_level_change_t @ gpio_level_t"

unbundle bit_operations_syntax

definition gpio_event_ok :: "int \<Rightarrow> bool" where
  "gpio_event_ok ev = (ev \<noteq> 0 \<and> ev AND NOT (foldr (OR) event_flags 0) = 0)"

definition rpi_gpio_setup_ok :: "int \<Rightarrow> int \<Rightarrow> bool" where
  "rpi_gpio_setup_ok pin cfg = (pin \<in> set gpio_pins \<and> cfg \<in> set gpio_config_t)"

definition rpi_gpio_setup_pull_ok :: "int \<Rightarrow> int \<Rightarrow> int \<Rightarrow> bool" where
  "rpi_gpio_setup_pull_ok pin cfg dir =
     (pin \<in> set gpio_pins \<and> cfg \<in> set gpio_config_t \<and> dir \<in> set gpio_pull_t)"

definition rpi_gpio_setup_pwm_ok :: "int \<Rightarrow> int \<Rightarrow> bool" where
  "rpi_gpio_setup_pwm_ok pin mode = (pin \<in> set gpio_pins \<and> mode \<in> set pwm_channel_op_mode_t)"

definition rpi_gpio_set_pwm_duty_cycle_ok :: "int \<Rightarrow> bool" where
  "rpi_gpio_set_pwm_duty_cycle_ok pin = (pin \<in> set gpio_pins)"

definition rpi_gpio_get_setup_ok :: "int \<Rightarrow> bool" where
  "rpi_gpio_get_setup_ok pin = (pin \<in> set gpio_pins)"

definition rpi_gpio_input_ok :: "int \<Rightarrow> bool" where
  "rpi_gpio_input_ok pin = (pin \<in> set gpio_pins)"

definition rpi_gpio_output_ok :: "int \<Rightarrow> int \<Rightarrow> bool" where
  "rpi_gpio_output_ok pin level = (pin \<in> set gpio_pins \<and> level \<in> set gpio_level_t)"

definition rpi_gpio_add_event_detect_ok :: "int \<Rightarrow> int \<Rightarrow> bool" where
  "rpi_gpio_add_event_detect_ok pin ev = (pin \<in> set gpio_pins \<and> gpio_event_ok ev)"

definition gpio_args_ok :: "gpio_request \<Rightarrow> bool" where
  "gpio_args_ok r =
     (case r of
        Setup pin cfg \<Rightarrow> rpi_gpio_setup_ok pin cfg
      | Setup_pull pin cfg dir \<Rightarrow> rpi_gpio_setup_pull_ok pin cfg dir
      | Setup_pwm pin frequency mode \<Rightarrow> rpi_gpio_setup_pwm_ok pin mode
      | Set_pwm_duty_cycle pin percentage \<Rightarrow> rpi_gpio_set_pwm_duty_cycle_ok pin
      | Get_setup pin \<Rightarrow> rpi_gpio_get_setup_ok pin
      | Input pin \<Rightarrow> rpi_gpio_input_ok pin
      | Output pin level \<Rightarrow> rpi_gpio_output_ok pin level
      | Add_event_detect pin coid ev ev_id \<Rightarrow> rpi_gpio_add_event_detect_ok pin ev
      | Cleanup \<Rightarrow> True)"

text \<open>The codes a request may return.\<close>

definition gpio_results :: "gpio_request \<Rightarrow> int list" where
  "gpio_results r =
     (case r of
        Cleanup \<Rightarrow> [GPIO_SUCCESS, GPIO_ERROR_NOT_CONNECTED, GPIO_ERROR_CLEANING_UP]
      | _ \<Rightarrow> [GPIO_SUCCESS, GPIO_ERROR_NOT_CONNECTED, GPIO_ERROR_MSG_NOT_SENT, GPIO_ERROR_INPUT_OUT_OF_RANGE])"

lemmas gpio_codes = GPIO_SUCCESS_def GPIO_ERROR_NOT_CONNECTED_def GPIO_ERROR_MSG_NOT_SENT_def
  GPIO_ERROR_MSG_EVENT_NOT_REGISTERED_def GPIO_ERROR_INPUT_OUT_OF_RANGE_def GPIO_ERROR_CLEANING_UP_def

lemma gpio_failure_negative: "e \<in> set (gpio_results r) \<Longrightarrow> (e = GPIO_SUCCESS) = (0 \<le> e)"
  by (cases r) (auto simp: gpio_results_def gpio_codes)

lemmas gpio_args_defs = gpio_args_ok_def rpi_gpio_setup_ok_def rpi_gpio_setup_pull_ok_def rpi_gpio_output_ok_def
  rpi_gpio_add_event_detect_ok_def

lemma gpio_pin_iff: "pin \<in> set gpio_pins \<longleftrightarrow> 0 \<le> pin \<and> pin < 28"
  by (auto simp: gpio_pins_def GPIO_COUNT_def)

lemmas gpio_values = GPIO_IN_def GPIO_OUT_def GPIO_PUD_OFF_def GPIO_PUD_UP_def GPIO_PUD_DOWN_def
  GPIO_LOW_def GPIO_HIGH_def GPIO_RISING_def GPIO_FALLING_def gpio_config_t_def gpio_pull_t_def
  gpio_level_t_def gpio_level_change_t_def

lemma event_mask: "foldr (OR) event_flags 0 = 15"
  by (simp add: event_flags_def gpio_values)

lemma rising_and_falling: "gpio_event_ok (GPIO_RISING OR GPIO_FALLING)" "\<not> gpio_event_ok 0" "\<not> gpio_event_ok 16"
  unfolding gpio_event_ok_def event_mask gpio_values by simp_all

end
