(* ===== verification/Ultrasonic_Driver.thy ===== *)
theory Ultrasonic_Driver
  imports Float32 Rpi_Gpio
begin

text \<open>
  \<open>src/ultrasonic_driver.c\<close>: the HC-SR04 ranger over GPIO edges delivered as QNX pulses.

  The GPIO library (\<open>rpi_gpio.h\<close>) and the QNX kernel are not part of the repository, so they
  are the argument \<open>env\<close>. Every call the driver makes is recorded in a trace, youngest first,
  and \<open>env\<close> answers a call from the trace before it, so it may behave in any way that depends
  on what the driver did so far. The drain loop at the start of \<open>ultrasonic_read\<close> stops only if
  the kernel reports that no pulse is left; a read that never returns is \<open>None\<close>.
\<close>

section \<open>Data\<close>

record ultrasonic =
  trig_pin :: int
  echo_pin :: int
  us_sensor_id :: int
  chid :: int
  coid :: int

definition EVENT_ECHO :: int where "EVENT_ECHO = 1"
definition ECHO_TIMEOUT_MS :: int where "ECHO_TIMEOUT_MS = 30"
definition SPEED_OF_SOUND_CM_PER_US :: f32 where "SPEED_OF_SOUND_CM_PER_US = f32_lit 343 10000"
definition MAX_DISTANCE_CM :: f32 where "MAX_DISTANCE_CM = f32_lit 500 1"

datatype us_call =
    Gpio gpio_request
  | Channel_create
  | Connect_attach int
  | Connect_detach int
  | Channel_destroy int
  | Timer_timeout int
  | Msg_receive_pulse int
  | Nanosleep int int
  | Clock_gettime

record pulse =
  pulse_code :: int
  pulse_value :: int

record timespec =
  tv_sec :: int
  tv_nsec :: int

record us_env =
  env_rc :: "us_call list \<Rightarrow> us_call \<Rightarrow> int"
  env_pulse :: "us_call list \<Rightarrow> pulse"
  env_clock :: "us_call list \<Rightarrow> timespec"
  pulse_code_minavail :: int

section \<open>Operations\<close>

definition receive_echo_event :: "us_env \<Rightarrow> ultrasonic \<Rightarrow> us_call list \<Rightarrow> int \<times> us_call list" where
  "receive_echo_event env s tr =
     (let t = Timer_timeout (ECHO_TIMEOUT_MS * 1000000); tr1 = t # tr in
      if env_rc env tr t = -1 then (-1, tr1)
      else let m = Msg_receive_pulse (chid s); tr2 = m # tr1 in
        if env_rc env tr1 m = -1 then (-1, tr2)
        else let p = env_pulse env tr1 in
          if pulse_code p \<noteq> pulse_code_minavail env then (-1, tr2)
          else if pulse_value p \<noteq> EVENT_ECHO then (-1, tr2)
          else (0, tr2))"

definition elapsed_time_ns :: "timespec \<Rightarrow> timespec \<Rightarrow> int" where
  "elapsed_time_ns start stop =
     (let seconds = tv_sec stop - tv_sec start; nanoseconds = tv_nsec stop - tv_nsec start
      in seconds * 1000000000 + nanoseconds)"

definition send_trigger :: "us_env \<Rightarrow> ultrasonic \<Rightarrow> us_call list \<Rightarrow> int \<times> us_call list" where
  "send_trigger env s tr =
     (let hi = Gpio (Output (trig_pin s) GPIO_HIGH); tr1 = hi # tr in
      if env_rc env tr hi \<noteq> GPIO_SUCCESS then (-1, tr1)
      else let sl = Nanosleep 0 10000; tr2 = sl # tr1; lo = Gpio (Output (trig_pin s) GPIO_LOW) in
        if env_rc env tr1 sl = -1 then (-1, lo # tr2)
        else if env_rc env tr2 lo \<noteq> GPIO_SUCCESS then (-1, lo # tr2)
        else (0, lo # tr2))"

definition ultrasonic_init ::
  "us_env \<Rightarrow> ultrasonic option \<Rightarrow> int \<Rightarrow> int \<Rightarrow> int \<Rightarrow> us_call list
   \<Rightarrow> int \<times> ultrasonic option \<times> us_call list" where
  "ultrasonic_init env sensor trig echo sid tr =
     (case sensor of None \<Rightarrow> (-1, None, tr)
      | Some s0 \<Rightarrow>
        let s = s0\<lparr>trig_pin := trig, echo_pin := echo, us_sensor_id := sid, chid := -1, coid := -1\<rparr>;
            c1 = Gpio (Setup (trig_pin s) GPIO_OUT); tr1 = c1 # tr in
        if env_rc env tr c1 \<noteq> GPIO_SUCCESS then (-1, Some s, tr1)
        else let c2 = Gpio (Setup_pull (echo_pin s) GPIO_IN GPIO_PUD_OFF); tr2 = c2 # tr1 in
        if env_rc env tr1 c2 \<noteq> GPIO_SUCCESS then (-1, Some s, tr2)
        else let s = s\<lparr>chid := env_rc env tr2 Channel_create\<rparr>; tr3 = Channel_create # tr2 in
        if chid s = -1 then (-1, Some s, tr3)
        else let c4 = Connect_attach (chid s); s = s\<lparr>coid := env_rc env tr3 c4\<rparr>; tr4 = c4 # tr3 in
        if coid s = -1 then (-1, Some (s\<lparr>chid := -1\<rparr>), Channel_destroy (chid s) # tr4)
        else let c5 = Gpio (Add_event_detect (echo_pin s) (coid s) (GPIO_RISING OR GPIO_FALLING) EVENT_ECHO);
                 tr5 = c5 # tr4;
                 undo = (\<lambda>t. Channel_destroy (chid s) # Connect_detach (coid s) # t) in
        if env_rc env tr4 c5 \<noteq> GPIO_SUCCESS then (-1, Some (s\<lparr>coid := -1, chid := -1\<rparr>), undo tr5)
        else let c6 = Gpio (Output (trig_pin s) GPIO_LOW); tr6 = c6 # tr5 in
        if env_rc env tr5 c6 \<noteq> GPIO_SUCCESS then (-1, Some (s\<lparr>coid := -1, chid := -1\<rparr>), undo tr6)
        else (0, Some s, tr6))"

partial_function (option) drain_events :: "us_env \<Rightarrow> int \<Rightarrow> us_call list \<Rightarrow> us_call list option" where
  "drain_events env ch tr =
     (let t = Timer_timeout 0; m = Msg_receive_pulse ch in
      if env_rc env tr t = -1 then Some (t # tr)
      else if env_rc env (t # tr) m = -1 then Some (m # t # tr)
      else drain_events env ch (m # t # tr))"

text \<open>Pulse width to centimetres.\<close>

definition distance_of_ns :: "int \<Rightarrow> f32" where
  "distance_of_ns pulse_time_ns =
     f32_div (f32_mul (f32_div (f32_of_int pulse_time_ns) (f32_lit 1000 1)) SPEED_OF_SOUND_CM_PER_US)
       (f32_lit 2 1)"

text \<open>
  The return value, what is stored in \<open>*distance\<close> (\<open>None\<close>: nothing, for a \<open>NULL\<close> argument)
  and the calls made.
\<close>

definition measure_distance ::
  "us_env \<Rightarrow> ultrasonic \<Rightarrow> us_call list \<Rightarrow> int \<times> f32 option \<times> us_call list" where
  "measure_distance env s tr =
     (let (rc1, tr1) = send_trigger env s tr in
      if rc1 \<noteq> 0 then (-1, Some f32_0, tr1)
      else let (rc2, tr2) = receive_echo_event env s tr1 in
      if rc2 \<noteq> 0 then (-1, Some f32_0, tr2)
      else let start = env_clock env tr2; tr3 = Clock_gettime # tr2 in
      if env_rc env tr2 Clock_gettime = -1 then (-1, Some f32_0, tr3)
      else let (rc4, tr4) = receive_echo_event env s tr3 in
      if rc4 \<noteq> 0 then (-1, Some f32_0, tr4)
      else let stop = env_clock env tr4; tr5 = Clock_gettime # tr4 in
      if env_rc env tr4 Clock_gettime = -1 then (-1, Some f32_0, tr5)
      else let pulse_time_ns = elapsed_time_ns start stop in
      if pulse_time_ns \<le> 0 then (-1, Some f32_0, tr5)
      else let distance = distance_of_ns pulse_time_ns in
      if f32_le distance f32_0 \<or> f32_gt distance MAX_DISTANCE_CM then (-1, Some f32_0, tr5)
      else (0, Some distance, tr5))"

definition ultrasonic_read ::
  "us_env \<Rightarrow> ultrasonic option \<Rightarrow> bool \<Rightarrow> us_call list \<Rightarrow> (int \<times> f32 option \<times> us_call list) option" where
  "ultrasonic_read env sensor distance tr =
     (case sensor of None \<Rightarrow> Some (-1, None, tr)
      | Some s \<Rightarrow>
          if \<not> distance then Some (-1, None, tr)
          else map_option (measure_distance env s) (drain_events env (chid s) tr))"

definition ultrasonic_shutdown ::
  "ultrasonic option \<Rightarrow> us_call list \<Rightarrow> ultrasonic option \<times> us_call list" where
  "ultrasonic_shutdown sensor tr =
     (case sensor of None \<Rightarrow> (None, tr)
      | Some s \<Rightarrow>
          let (s, tr) = (if coid s \<noteq> -1 then (s\<lparr>coid := -1\<rparr>, Connect_detach (coid s) # tr) else (s, tr));
              (s, tr) = (if chid s \<noteq> -1 then (s\<lparr>chid := -1\<rparr>, Channel_destroy (chid s) # tr) else (s, tr))
          in (Some s, Gpio Cleanup # tr))"

section \<open>Which pulse widths are distances\<close>

lemma distance_constants:
  "f32_lit 1000 1 = FFin (1000 * 2 ^ 149)" "f32_lit 2 1 = FFin (2 * 2 ^ 149)"
  "MAX_DISTANCE_CM = FFin (500 * 2 ^ 149)"
  "SPEED_OF_SOUND_CM_PER_US = FFin 24477297555596608347117294566346773414019072"
  by code_simp+

lemma distance_mono: "m \<le> n \<Longrightarrow> f32_le (distance_of_ns m) (distance_of_ns n)"
  unfolding distance_of_ns_def distance_constants
  by (intro f32_div_mono f32_mul_mono f32_of_int_mono) simp_all

lemma distance_1_pos: "f32_lt f32_0 (distance_of_ns 1)"
  by code_simp

lemma distance_last: "distance_of_ns 29154521 = MAX_DISTANCE_CM"
  by code_simp

lemma distance_beyond: "f32_lt MAX_DISTANCE_CM (distance_of_ns 29154522)"
  by code_simp

lemma distance_pos: "1 \<le> t \<Longrightarrow> f32_lt f32_0 (distance_of_ns t)"
  using f32_lt_le_trans [OF distance_1_pos distance_mono] .

lemma distance_in_range_iff:
  assumes "1 \<le> t"
  shows "f32_gt (distance_of_ns t) MAX_DISTANCE_CM = (29154521 < t)"
proof (cases "29154521 < t")
  case True
  then have "f32_le (distance_of_ns 29154522) (distance_of_ns t)" by (intro distance_mono) simp
  then show ?thesis using True f32_lt_le_trans [OF distance_beyond] by simp
next
  case False
  then have "f32_le (distance_of_ns t) MAX_DISTANCE_CM"
    using distance_mono [of t 29154521] by (simp add: distance_last)
  then show ?thesis using False f32_le_lt_trans f32_lt_irrefl by blast
qed

lemma f32_le_not_lt: "f32_lt x y \<Longrightarrow> \<not> f32_le y x"
  using f32_lt_le_trans f32_lt_irrefl by blast

lemma accepted_iff:
  "1 \<le> t \<Longrightarrow> (f32_le (distance_of_ns t) f32_0 \<or> f32_gt (distance_of_ns t) MAX_DISTANCE_CM) = (29154521 < t)"
  using distance_pos [of t] distance_in_range_iff [of t] f32_le_not_lt by blast

section \<open>Results of a read\<close>

lemma measure_distance_success:
  assumes "measure_distance env s tr = (0, d, tr')"
  shows "\<exists>x. d = Some x \<and> f32_lt f32_0 x \<and> f32_le x MAX_DISTANCE_CM"
proof -
  from assms obtain t where t: "0 < t" "d = Some (distance_of_ns t)"
      "\<not> f32_gt (distance_of_ns t) MAX_DISTANCE_CM"
    by (auto simp: measure_distance_def Let_def not_le split: if_splits prod.splits)
  then have "f32_lt f32_0 (distance_of_ns t)" by (intro distance_pos) simp
  moreover have "MAX_DISTANCE_CM \<noteq> FNaN" "distance_of_ns t \<noteq> FNaN"
    using f32_lt_not_nan [OF calculation] by (simp_all add: distance_constants)
  ultimately show ?thesis using t f32_not_lt by blast
qed

lemma measure_distance_rc: "fst (measure_distance env s tr) \<in> {0, -1}"
  by (simp add: measure_distance_def Let_def split: prod.splits)

lemma measure_distance_failure:
  "measure_distance env s tr = (rc, d, tr') \<Longrightarrow> rc \<noteq> 0 \<Longrightarrow> d = Some f32_0"
  by (auto simp: measure_distance_def Let_def split: prod.splits if_splits)

text \<open>With every call answered as it should, the outcome is decided by the pulse width alone.\<close>

lemma measure_distance_echo:
  assumes "send_trigger env s tr = (0, tr1)" "receive_echo_event env s tr1 = (0, tr2)"
    and "env_rc env tr2 Clock_gettime \<noteq> -1"
    and "receive_echo_event env s (Clock_gettime # tr2) = (0, tr4)"
    and "env_rc env tr4 Clock_gettime \<noteq> -1"
    and "t = elapsed_time_ns (env_clock env tr2) (env_clock env tr4)"
  shows "measure_distance env s tr
    = (if 1 \<le> t \<and> t \<le> 29154521 then (0, Some (distance_of_ns t), Clock_gettime # tr4)
       else (-1, Some f32_0, Clock_gettime # tr4))"
proof (cases "1 \<le> t")
  case True
  show ?thesis using assms True accepted_iff [OF True] by (auto simp: measure_distance_def Let_def)
next
  case False
  then show ?thesis using assms by (simp add: measure_distance_def Let_def)
qed

text \<open>
  The elapsed time is the difference of the two instants in nanoseconds, and stays inside
  \<open>int64_t\<close> for normalised readings of a clock below \<open>2^32\<close> seconds.
\<close>

definition instant_ns :: "timespec \<Rightarrow> int" where
  "instant_ns t = tv_sec t * 1000000000 + tv_nsec t"

definition clock_ok :: "timespec \<Rightarrow> bool" where
  "clock_ok t = (0 \<le> tv_sec t \<and> tv_sec t < 2 ^ 32 \<and> 0 \<le> tv_nsec t \<and> tv_nsec t < 1000000000)"

lemma elapsed_time_eq: "elapsed_time_ns a b = instant_ns b - instant_ns a"
  by (simp add: elapsed_time_ns_def instant_ns_def Let_def algebra_simps)

lemma elapsed_time_no_overflow:
  assumes "clock_ok a" "clock_ok b"
  shows "\<bar>(tv_sec b - tv_sec a) * 1000000000\<bar> < 2 ^ 63" "\<bar>elapsed_time_ns a b\<bar> < 2 ^ 63"
  using assms by (auto simp: clock_ok_def elapsed_time_ns_def Let_def)

section \<open>Termination of the drain loop\<close>

text \<open>
  The trace after \<open>k\<close> turns of the loop, and a kernel whose queue of pulses is finite: from
  every point on, some receive that does not wait fails.
\<close>

fun drained :: "int \<Rightarrow> nat \<Rightarrow> us_call list \<Rightarrow> us_call list" where
  "drained ch 0 tr = tr"
| "drained ch (Suc k) tr = drained ch k (Msg_receive_pulse ch # Timer_timeout 0 # tr)"

definition pulses_run_out :: "us_env \<Rightarrow> int \<Rightarrow> bool" where
  "pulses_run_out env ch =
     (\<forall>tr. \<exists>k. env_rc env (Timer_timeout 0 # drained ch k tr) (Msg_receive_pulse ch) = -1)"

lemma drain_events_ends:
  "env_rc env (Timer_timeout 0 # drained ch k tr) (Msg_receive_pulse ch) = -1
   \<Longrightarrow> \<exists>tr'. drain_events env ch tr = Some tr'"
proof (induction k arbitrary: tr)
  case 0
  then show ?case by (subst drain_events.simps) (simp add: Let_def)
next
  case (Suc k)
  then obtain tr' where "drain_events env ch (Msg_receive_pulse ch # Timer_timeout 0 # tr) = Some tr'" by auto
  then show ?case by (subst drain_events.simps) (simp add: Let_def)
qed

lemma drain_events_returns:
  "pulses_run_out env ch \<Longrightarrow> \<exists>tr'. drain_events env ch tr = Some tr'"
  unfolding pulses_run_out_def using drain_events_ends by blast

section \<open>Resources\<close>

text \<open>The channels and connections that are open after a trace.\<close>

fun open_channels :: "us_env \<Rightarrow> us_call list \<Rightarrow> int list" where
  "open_channels env [] = []"
| "open_channels env (Channel_create # tr) =
     (if env_rc env tr Channel_create = -1 then open_channels env tr
      else env_rc env tr Channel_create # open_channels env tr)"
| "open_channels env (Channel_destroy c # tr) = remove1 c (open_channels env tr)"
| "open_channels env (_ # tr) = open_channels env tr"

fun open_connections :: "us_env \<Rightarrow> us_call list \<Rightarrow> int list" where
  "open_connections env [] = []"
| "open_connections env (Connect_attach c # tr) =
     (if env_rc env tr (Connect_attach c) = -1 then open_connections env tr
      else env_rc env tr (Connect_attach c) # open_connections env tr)"
| "open_connections env (Connect_detach c # tr) = remove1 c (open_connections env tr)"
| "open_connections env (_ # tr) = open_connections env tr"

lemma ultrasonic_init_resources:
  assumes "ultrasonic_init env (Some s0) trig echo sid tr = (rc, Some s, tr')"
  shows "if rc = 0
    then chid s \<noteq> -1 \<and> coid s \<noteq> -1
      \<and> open_channels env tr' = chid s # open_channels env tr
      \<and> open_connections env tr' = coid s # open_connections env tr
    else rc = -1 \<and> chid s = -1 \<and> coid s = -1
      \<and> open_channels env tr' = open_channels env tr
      \<and> open_connections env tr' = open_connections env tr"
  using assms by (auto simp: ultrasonic_init_def Let_def split: if_splits)

lemma ultrasonic_shutdown_resources:
  assumes "open_channels env tr = chid s # ch" "open_connections env tr = coid s # co"
    and "chid s \<noteq> -1" "coid s \<noteq> -1"
    and "ultrasonic_shutdown (Some s) tr = (s', tr')"
  shows "open_channels env tr' = ch \<and> open_connections env tr' = co"
  using assms by (auto simp: ultrasonic_shutdown_def Let_def)

section \<open>Waiting and triggering\<close>

text \<open>
  Every receive is bounded: the call before it armed the kernel timeout successfully, with no
  wait at all in the drain loop and with the echo timeout in a measurement.
\<close>

fun receives_bounded :: "us_env \<Rightarrow> us_call list \<Rightarrow> bool" where
  "receives_bounded env [] = True"
| "receives_bounded env (Msg_receive_pulse c # tr) =
     (receives_bounded env tr \<and>
      (case tr of Timer_timeout ns # tr0 \<Rightarrow>
           (ns = 0 \<or> ns = 30000000) \<and> env_rc env tr0 (Timer_timeout ns) \<noteq> -1
       | _ \<Rightarrow> False))"
| "receives_bounded env (_ # tr) = receives_bounded env tr"

lemma drain_events_bounded:
  assumes ret: "drain_events env ch tr = Some tr'"
  shows "receives_bounded env tr \<Longrightarrow> receives_bounded env tr'"
proof (rule drain_events.raw_induct
    [where P = "\<lambda>env ch tr tr'. receives_bounded env tr \<longrightarrow> receives_bounded env tr'", OF _ ret, THEN mp])
  fix drain env ch tr tr'
  assume IH: "\<And>env ch tr tr'. drain env ch tr = Some tr'
      \<Longrightarrow> receives_bounded env tr \<longrightarrow> receives_bounded env tr'"
    and eq: "(let t = Timer_timeout 0; m = Msg_receive_pulse ch in
      if env_rc env tr t = -1 then Some (t # tr)
      else if env_rc env (t # tr) m = -1 then Some (m # t # tr)
      else drain env ch (m # t # tr)) = Some tr'"
  show "receives_bounded env tr \<longrightarrow> receives_bounded env tr'"
    using eq IH [of env ch "Msg_receive_pulse ch # Timer_timeout 0 # tr" tr']
    by (auto simp: Let_def split: if_splits)
qed

lemma receive_echo_bounded:
  "receive_echo_event env s tr = (rc, tr') \<Longrightarrow> receives_bounded env tr \<Longrightarrow> receives_bounded env tr'"
  by (auto simp: receive_echo_event_def ECHO_TIMEOUT_MS_def Let_def split: if_splits)

lemma send_trigger_bounded:
  "send_trigger env s tr = (rc, tr') \<Longrightarrow> receives_bounded env tr \<Longrightarrow> receives_bounded env tr'"
  by (auto simp: send_trigger_def Let_def split: if_splits)

lemma measure_distance_bounded:
  "measure_distance env s tr = (rc, d, tr') \<Longrightarrow> receives_bounded env tr \<Longrightarrow> receives_bounded env tr'"
  by (auto simp: measure_distance_def Let_def split: if_splits prod.splits
      dest!: send_trigger_bounded receive_echo_bounded)

text \<open>
  The last level the driver writes to a pin: after a trigger that got its high level out, the
  pin was driven low again, even when the pulse was cut short.
\<close>

fun last_level :: "int \<Rightarrow> us_call list \<Rightarrow> int option" where
  "last_level p [] = None"
| "last_level p (Gpio (Output q l) # tr) = (if q = p then Some l else last_level p tr)"
| "last_level p (_ # tr) = last_level p tr"

lemma send_trigger_low:
  assumes "send_trigger env s tr = (rc, tr')"
    and "env_rc env tr (Gpio (Output (trig_pin s) GPIO_HIGH)) = GPIO_SUCCESS"
  shows "last_level (trig_pin s) tr' = Some GPIO_LOW"
  using assms by (auto simp: send_trigger_def Let_def split: if_splits)

section \<open>Requests to the GPIO server\<close>

text \<open>Every request of a trace was answered with success.\<close>

fun granted :: "us_env \<Rightarrow> us_call list \<Rightarrow> bool" where
  "granted env [] = True"
| "granted env (Gpio r # tr) = (env_rc env tr (Gpio r) = GPIO_SUCCESS \<and> granted env tr)"
| "granted env (_ # tr) = granted env tr"

lemma ultrasonic_init_granted:
  "ultrasonic_init env s0 trig echo sid tr = (0, s, tr') \<Longrightarrow> granted env tr \<Longrightarrow> granted env tr'"
  by (auto simp: ultrasonic_init_def Let_def split: if_splits option.splits)

lemma send_trigger_granted: "send_trigger env s tr = (0, tr') \<Longrightarrow> granted env tr \<Longrightarrow> granted env tr'"
  by (auto simp: send_trigger_def Let_def split: if_splits)

text \<open>Every request of a trace has the arguments \<open>rpi_gpio.h\<close> asks for.\<close>

definition requests_ok :: "us_call list \<Rightarrow> bool" where
  "requests_ok tr = (\<forall>r. Gpio r \<in> set tr \<longrightarrow> gpio_args_ok r)"

lemma requests_ok_simps [simp]:
  "requests_ok []" "requests_ok (Gpio r # tr) = (gpio_args_ok r \<and> requests_ok tr)"
  "(\<And>r. c \<noteq> Gpio r) \<Longrightarrow> requests_ok (c # tr) = requests_ok tr"
  by (auto simp: requests_ok_def)

lemma driver_args_ok [simp]:
  "gpio_args_ok (Setup pin GPIO_OUT) = (pin \<in> set gpio_pins)"
  "gpio_args_ok (Setup_pull pin GPIO_IN GPIO_PUD_OFF) = (pin \<in> set gpio_pins)"
  "gpio_args_ok (Output pin GPIO_LOW) = (pin \<in> set gpio_pins)"
  "gpio_args_ok (Output pin GPIO_HIGH) = (pin \<in> set gpio_pins)"
  "gpio_args_ok (Add_event_detect pin c (GPIO_RISING OR GPIO_FALLING) n) = (pin \<in> set gpio_pins)"
  "gpio_args_ok Cleanup"
  by (simp_all add: gpio_args_defs rising_and_falling) (simp_all add: gpio_values)

lemma receive_echo_requests:
  "receive_echo_event env s tr = (rc, tr') \<Longrightarrow> requests_ok tr \<Longrightarrow> requests_ok tr'"
  by (auto simp: receive_echo_event_def Let_def split: if_splits)

lemma send_trigger_requests:
  "send_trigger env s tr = (rc, tr') \<Longrightarrow> trig_pin s \<in> set gpio_pins \<Longrightarrow> requests_ok tr \<Longrightarrow> requests_ok tr'"
  by (auto simp: send_trigger_def Let_def split: if_splits)

lemma measure_distance_requests:
  "measure_distance env s tr = (rc, d, tr') \<Longrightarrow> trig_pin s \<in> set gpio_pins \<Longrightarrow> requests_ok tr \<Longrightarrow> requests_ok tr'"
  by (auto simp: measure_distance_def Let_def split: if_splits prod.splits
      dest!: send_trigger_requests receive_echo_requests)

text \<open>The drain loop makes no request: what a trace satisfies before it, it satisfies after it.\<close>

lemma drain_events_keeps:
  assumes "\<And>tr. P tr \<Longrightarrow> P (Timer_timeout 0 # tr)" "\<And>tr. P tr \<Longrightarrow> P (Msg_receive_pulse ch # tr)"
  shows "drain_events env ch tr = Some tr' \<Longrightarrow> P tr \<Longrightarrow> P tr'"
proof -
  assume ret: "drain_events env ch tr = Some tr'" and "P tr"
  have "ch = ch \<longrightarrow> P tr \<longrightarrow> P tr'"
  proof (rule drain_events.raw_induct [where P = "\<lambda>env c tr tr'. c = ch \<longrightarrow> P tr \<longrightarrow> P tr'", OF _ ret])
    fix drain env c tr tr'
    assume IH: "\<And>env c tr tr'. drain env c tr = Some tr' \<Longrightarrow> c = ch \<longrightarrow> P tr \<longrightarrow> P tr'"
      and eq: "(let t = Timer_timeout 0; m = Msg_receive_pulse c in
        if env_rc env tr t = -1 then Some (t # tr)
        else if env_rc env (t # tr) m = -1 then Some (m # t # tr)
        else drain env c (m # t # tr)) = Some tr'"
    show "c = ch \<longrightarrow> P tr \<longrightarrow> P tr'"
      using eq IH [of env c "Msg_receive_pulse c # Timer_timeout 0 # tr" tr'] assms
      by (auto simp: Let_def split: if_splits)
  qed
  then show "P tr'" using \<open>P tr\<close> by simp
qed

lemma ultrasonic_read_requests:
  assumes "ultrasonic_read env (Some s) True tr = Some (rc, d, tr')" "trig_pin s \<in> set gpio_pins" "requests_ok tr"
  shows "requests_ok tr'"
proof -
  obtain tr1 where d: "drain_events env (chid s) tr = Some tr1" "measure_distance env s tr1 = (rc, d, tr')"
    using assms(1) by (auto simp: ultrasonic_read_def)
  have "requests_ok tr1"
    by (rule drain_events_keeps [where P = requests_ok, OF _ _ d(1)]) (simp_all add: assms(3))
  then show ?thesis using measure_distance_requests [OF d(2) assms(2)] by simp
qed

lemma ultrasonic_init_requests:
  assumes "ultrasonic_init env (Some s0) trig echo sid tr = (rc, s, tr')"
    and "trig \<in> set gpio_pins" "echo \<in> set gpio_pins" "requests_ok tr"
  shows "requests_ok tr' \<and> (\<exists>x. s = Some x \<and> trig_pin x = trig)"
  using assms by (auto simp: ultrasonic_init_def Let_def split: if_splits)

end
