(* ===== verification/Imu_Driver.thy ===== *)
theory Imu_Driver
  imports Float32
begin

text \<open>
  \<open>src/imu_driver.c\<close>: the MPU6050 inertial sensor over the QNX I2C \<open>devctl\<close> interface.

  The allocator, the I2C resource manager and the clock are the argument \<open>env\<close>, which answers
  a call from the trace of the calls before it (youngest first). A message is allocated as
  header plus payload; the trace records the payload size.
\<close>

unbundle bit_operations_syntax

section \<open>Data\<close>

definition REG_PWR_MGMT_1 :: u8 where "REG_PWR_MGMT_1 = 0x6B"
definition REG_WHO_AM_I :: u8 where "REG_WHO_AM_I = 0x75"
definition REG_ACCEL_XOUT_H :: u8 where "REG_ACCEL_XOUT_H = 0x3B"
definition MPU6050_PRIMARY_ADDR :: u8 where "MPU6050_PRIMARY_ADDR = 0x68"
definition MPU6050_BACKUP_ADDR :: u8 where "MPU6050_BACKUP_ADDR = 0x69"

record imu_calib =
  ax_offset :: f32
  ay_offset :: f32
  az_offset :: f32
  gx_offset :: f32
  gy_offset :: f32
  gz_offset :: f32
  is_calibrated :: int

record imu_sample =
  ax :: f32
  ay :: f32
  az :: f32
  gx :: f32
  gy :: f32
  gz :: f32

record mpu6050 =
  imu_fd :: int
  imu_addr :: u8
  imu_sensor_id :: int
  calib :: imu_calib

datatype imu_call =
    Malloc nat
  | Free nat
  | Devctl_write int u8 u8 u8
  | Devctl_read int u8 u8 nat
  | Usleep int

record imu_env =
  malloc_ok :: "imu_call list \<Rightarrow> bool"
  devctl_err :: "imu_call list \<Rightarrow> imu_call \<Rightarrow> int"
  devctl_bytes :: "imu_call list \<Rightarrow> imu_call \<Rightarrow> u8 list"

definition EOK :: int where "EOK = 0"

section \<open>Register access\<close>

definition i2c_write_reg ::
  "imu_env \<Rightarrow> int \<Rightarrow> u8 \<Rightarrow> u8 \<Rightarrow> u8 \<Rightarrow> imu_call list \<Rightarrow> int \<times> imu_call list" where
  "i2c_write_reg env fd addr reg val tr =
     (let tr1 = Malloc 2 # tr in
      if \<not> malloc_ok env tr then (-1, tr1)
      else let d = Devctl_write fd addr reg val; tr2 = Free 2 # d # tr1 in
        if devctl_err env tr1 d \<noteq> EOK then (-1, tr2) else (0, tr2))"

text \<open>The bytes copied to \<open>buf\<close> are \<open>Some\<close> on success only.\<close>

definition i2c_read_bytes ::
  "imu_env \<Rightarrow> int \<Rightarrow> u8 \<Rightarrow> u8 \<Rightarrow> nat \<Rightarrow> imu_call list \<Rightarrow> u8 list option \<times> imu_call list" where
  "i2c_read_bytes env fd addr reg len tr =
     (let tr1 = Malloc len # tr in
      if \<not> malloc_ok env tr then (None, tr1)
      else let d = Devctl_read fd addr reg len; tr2 = d # tr1 in
        if devctl_err env tr1 d \<noteq> EOK then (None, Free len # tr2)
        else (Some (take len (devctl_bytes env tr1 d)), Free len # tr2))"

section \<open>Driver\<close>

definition zero_calib :: imu_calib where
  "zero_calib = \<lparr>ax_offset = f32_0, ay_offset = f32_0, az_offset = f32_0,
     gx_offset = f32_0, gy_offset = f32_0, gz_offset = f32_0, is_calibrated = 0\<rparr>"

text \<open>The byte read from \<open>WHO_AM_I\<close> is only printed.\<close>

definition mpu6050_init ::
  "imu_env \<Rightarrow> mpu6050 option \<Rightarrow> int \<Rightarrow> u8 \<Rightarrow> int \<Rightarrow> imu_call list
   \<Rightarrow> int \<times> mpu6050 option \<times> imu_call list" where
  "mpu6050_init env imu fd addr sid tr =
     (case imu of None \<Rightarrow> (-1, None, tr)
      | Some _ \<Rightarrow>
        let m = \<lparr>imu_fd = fd, imu_addr = addr, imu_sensor_id = sid, calib = zero_calib\<rparr>;
            (rc, tr1) = i2c_write_reg env fd addr REG_PWR_MGMT_1 0 tr in
        if rc \<noteq> 0 then (-1, Some m, tr1)
        else let (who, tr2) = i2c_read_bytes env fd addr REG_WHO_AM_I 1 (Usleep 10000 # tr1)
          in (0, Some m, tr2))"

text \<open>\<open>(int16_t)((h << 8) | l)\<close>, and the six channels of a 14-byte burst in physical units.\<close>

definition int16_of_bytes :: "u8 \<Rightarrow> u8 \<Rightarrow> int" where
  "int16_of_bytes h l = sint (push_bit 8 (ucast h :: u16) OR ucast l)"

definition accel_g :: "u8 \<Rightarrow> u8 \<Rightarrow> f32" where
  "accel_g h l = f32_div (f32_of_int (int16_of_bytes h l)) (f32_lit 16384 1)"

definition gyro_dps :: "u8 \<Rightarrow> u8 \<Rightarrow> f32" where
  "gyro_dps h l = f32_div (f32_of_int (int16_of_bytes h l)) (f32_lit 131 1)"

definition convert_burst :: "u8 list \<Rightarrow> imu_sample" where
  "convert_burst raw =
     \<lparr>ax = accel_g (raw ! 0) (raw ! 1), ay = accel_g (raw ! 2) (raw ! 3),
      az = accel_g (raw ! 4) (raw ! 5), gx = gyro_dps (raw ! 8) (raw ! 9),
      gy = gyro_dps (raw ! 10) (raw ! 11), gz = gyro_dps (raw ! 12) (raw ! 13)\<rparr>"

definition zero_sums :: imu_sample where
  "zero_sums = \<lparr>ax = f32_0, ay = f32_0, az = f32_0, gx = f32_0, gy = f32_0, gz = f32_0\<rparr>"

definition add_sums :: "imu_sample \<Rightarrow> imu_sample \<Rightarrow> imu_sample" where
  "add_sums s v =
     \<lparr>ax = f32_add (ax s) (ax v), ay = f32_add (ay s) (ay v), az = f32_add (az s) (az v),
      gx = f32_add (gx s) (gx v), gy = f32_add (gy s) (gy v), gz = f32_add (gz s) (gz v)\<rparr>"

fun calib_loop ::
  "imu_env \<Rightarrow> mpu6050 \<Rightarrow> nat \<Rightarrow> imu_sample \<Rightarrow> imu_call list \<Rightarrow> imu_sample option \<times> imu_call list" where
  "calib_loop env m 0 sums tr = (Some sums, tr)"
| "calib_loop env m (Suc n) sums tr =
     (case i2c_read_bytes env (imu_fd m) (imu_addr m) REG_ACCEL_XOUT_H 14 tr of
        (None, tr1) \<Rightarrow> (None, tr1)
      | (Some raw, tr1) \<Rightarrow> calib_loop env m n (add_sums sums (convert_burst raw)) (Usleep 20000 # tr1))"

definition offsets_of_sums :: "imu_sample \<Rightarrow> imu_calib" where
  "offsets_of_sums s =
     (let samples = f32_of_int 50 in
      \<lparr>ax_offset = f32_div (ax s) samples, ay_offset = f32_div (ay s) samples,
       az_offset = f32_sub (f32_div (az s) samples) (f32_lit 1 1),
       gx_offset = f32_div (gx s) samples, gy_offset = f32_div (gy s) samples,
       gz_offset = f32_div (gz s) samples, is_calibrated = 1\<rparr>)"

definition mpu6050_calibrate ::
  "imu_env \<Rightarrow> mpu6050 option \<Rightarrow> imu_call list \<Rightarrow> int \<times> mpu6050 option \<times> imu_call list" where
  "mpu6050_calibrate env imu tr =
     (case imu of None \<Rightarrow> (-1, None, tr)
      | Some m \<Rightarrow>
        (case calib_loop env m 50 zero_sums tr of
           (None, tr1) \<Rightarrow> (-1, Some m, tr1)
         | (Some sums, tr1) \<Rightarrow> (0, Some (m\<lparr>calib := offsets_of_sums sums\<rparr>), tr1)))"

definition apply_calib :: "imu_calib \<Rightarrow> imu_sample \<Rightarrow> imu_sample" where
  "apply_calib k v =
     \<lparr>ax = f32_sub (ax v) (ax_offset k), ay = f32_sub (ay v) (ay_offset k),
      az = f32_sub (az v) (az_offset k), gx = f32_sub (gx v) (gx_offset k),
      gy = f32_sub (gy v) (gy_offset k), gz = f32_sub (gz v) (gz_offset k)\<rparr>"

definition mpu6050_read ::
  "imu_env \<Rightarrow> mpu6050 option \<Rightarrow> bool \<Rightarrow> imu_call list \<Rightarrow> imu_sample option \<times> imu_call list" where
  "mpu6050_read env imu out tr =
     (case imu of None \<Rightarrow> (None, tr)
      | Some m \<Rightarrow>
        if \<not> out then (None, tr)
        else (case i2c_read_bytes env (imu_fd m) (imu_addr m) REG_ACCEL_XOUT_H 14 tr of
            (None, tr1) \<Rightarrow> (None, tr1)
          | (Some raw, tr1) \<Rightarrow> (Some (apply_calib (calib m) (convert_burst raw)), tr1)))"

section \<open>Raw channels\<close>

lemma int16_of_bytes_eq: "int16_of_bytes h l = signed_take_bit 15 (256 * uint h + uint l)"
proof -
  have "(push_bit 8 (ucast h) :: u16) OR ucast l = push_bit 8 (ucast h) + ucast l"
  proof (rule disjunctive_add_eq_or [symmetric])
    show "push_bit 8 (ucast h :: u16) AND ucast l = 0"
      by (rule bit_word_eqI) (auto simp: bit_simps dest: bit_imp_le_length)
  qed
  also have "\<dots> = word_of_int (256 * uint h + uint l)"
    by (simp add: push_bit_eq_mult mult.commute)
  finally have w: "(push_bit 8 (ucast h) :: u16) OR ucast l = word_of_int (256 * uint h + uint l)" .
  show ?thesis unfolding int16_of_bytes_def w by (subst sint_sbintrunc') simp
qed

text \<open>The big-endian bytes of a 16-bit two's complement number decode to it.\<close>

definition int16_bytes :: "int \<Rightarrow> u8 \<times> u8" where
  "int16_bytes n = (word_of_int (n div 256), word_of_int n)"

lemma int16_bytes_roundtrip:
  assumes "- 32768 \<le> n" "n < 32768"
  shows "(case int16_bytes n of (h, l) \<Rightarrow> int16_of_bytes h l) = n"
proof -
  have m: "256 * ((n div 256) mod 256) + n mod 256 = n mod 65536"
    using zmod_zmult2_eq [of 256 n 256] by simp
  have "(case int16_bytes n of (h, l) \<Rightarrow> int16_of_bytes h l)
      = signed_take_bit 15 (256 * ((n div 256) mod 256) + n mod 256)"
    by (simp add: int16_bytes_def int16_of_bytes_eq uint_word_of_int_eq take_bit_eq_mod)
  also have "\<dots> = signed_take_bit 15 n"
    unfolding m signed_take_bit_eq_iff_take_bit_eq by (simp add: take_bit_eq_mod)
  also have "\<dots> = n" using assms by (intro signed_take_bit_int_eq_self) simp_all
  finally show ?thesis .
qed

lemma int16_range: "- 32768 \<le> int16_of_bytes h l" "int16_of_bytes h l < 32768"
  using signed_take_bit_int_less_exp [of 15 "256 * uint h + uint l"]
    signed_take_bit_int_greater_eq_minus_exp [of 15 "256 * uint h + uint l"]
  by (simp_all add: int16_of_bytes_eq)

text \<open>
  Accelerometer counts convert exactly: one count is \<open>1 / 16384\<close> g, which is \<open>2^135\<close> units.
\<close>

definition count_units :: int where
  "count_units = 2 ^ 135"

lemma accel_scale: "f32_lit 16384 1 = FFin (2 ^ 163)" "f32_lit 1 1 = FFin (2 ^ 149)"
  "f32_of_int 50 = FFin (50 * 2 ^ 149)"
  by code_simp+

lemma scaled_small:
  assumes "\<bar>m\<bar> \<le> 16777216" "k \<le> 250"
  shows "\<bar>m * 2 ^ k\<bar> < f32_max_units"
proof -
  have "\<bar>m * 2 ^ k\<bar> \<le> 2 ^ 24 * 2 ^ k" using assms(1) by (simp add: abs_mult)
  also have "\<dots> = (2::int) ^ (24 + k)" by (simp add: power_add)
  also have "\<dots> < 2 ^ 277" using assms(2) by (intro power_strict_increasing) auto
  finally show ?thesis by (simp add: f32_max_units_def)
qed

lemma f32_of_int_exact: "\<bar>n\<bar> \<le> 16777216 \<Longrightarrow> f32_of_int n = FFin (n * 2 ^ 149)"
  unfolding f32_of_int_def f32_one_units_def
  by (rule f32_round_exact, assumption, rule scaled_small, assumption, simp)

lemma count_round: "\<bar>m\<bar> \<le> 16777216 \<Longrightarrow> f32_round (m * count_units) 1 = FFin (m * count_units)"
  unfolding count_units_def
  by (rule f32_round_exact, assumption, rule scaled_small, assumption, simp)

lemma accel_g_exact: "accel_g h l = FFin (int16_of_bytes h l * count_units)"
proof -
  define n where "n = int16_of_bytes h l"
  have n: "\<bar>n\<bar> \<le> 16777216" using int16_range [of h l] by (simp add: n_def abs_le_iff)
  have "f32_div (FFin (n * 2 ^ 149)) (FFin (2 ^ 163)) = f32_round ((n * count_units) * 2 ^ 163) (1 * 2 ^ 163)"
    by (simp add: f32_one_units_def count_units_def)
  also have "\<dots> = f32_round (n * count_units) 1" by (rule f32_round_scale) simp
  also have "\<dots> = FFin (n * count_units)" using n by (rule count_round)
  finally show ?thesis
    using n by (simp add: accel_g_def accel_scale f32_of_int_exact flip: n_def)
qed

section \<open>Calibration\<close>

text \<open>
  The sums over \<open>k\<close> equal bursts: the accelerometer sums are exact, so the offsets of 50 equal
  bursts are the reading itself (less 1 g on the z axis).
\<close>

definition accel_units :: "u8 list \<Rightarrow> nat \<Rightarrow> int" where
  "accel_units raw i = int16_of_bytes (raw ! i) (raw ! (i + 1))"

lemma accel_units_range: "\<bar>accel_units raw i\<bar> \<le> 32768"
  using int16_range [of "raw ! i" "raw ! (i + 1)"] by (simp add: accel_units_def abs_le_iff)

definition accel_part :: "imu_sample \<Rightarrow> f32 \<times> f32 \<times> f32" where
  "accel_part s = (ax s, ay s, az s)"

lemma accel_part_burst:
  "accel_part (convert_burst raw)
     = (FFin (accel_units raw 0 * count_units), FFin (accel_units raw 2 * count_units),
        FFin (accel_units raw 4 * count_units))"
  by (simp add: accel_part_def convert_burst_def accel_g_exact accel_units_def)

lemma add_exact:
  "\<bar>m + n\<bar> \<le> 16777216 \<Longrightarrow> f32_add (FFin (m * count_units)) (FFin (n * count_units)) = FFin ((m + n) * count_units)"
  using count_round [of "m + n"] by (simp add: algebra_simps)

lemma sub_exact:
  "\<bar>m - n\<bar> \<le> 16777216 \<Longrightarrow> f32_sub (FFin (m * count_units)) (FFin (n * count_units)) = FFin ((m - n) * count_units)"
  using count_round [of "m - n"] by (simp add: f32_sub_def algebra_simps)

definition sums_after :: "u8 list \<Rightarrow> int \<Rightarrow> imu_sample \<Rightarrow> bool" where
  "sums_after raw k s = (accel_part s
     = (FFin (k * accel_units raw 0 * count_units), FFin (k * accel_units raw 2 * count_units),
        FFin (k * accel_units raw 4 * count_units)))"

lemma scaled_count:
  fixes a k :: int
  assumes "\<bar>a\<bar> \<le> 32768" "0 \<le> k" "k \<le> 50"
  shows "\<bar>k * a\<bar> \<le> 16777216"
proof -
  have "\<bar>k * a\<bar> \<le> 50 * 32768" unfolding abs_mult using assms by (intro mult_mono) auto
  then show ?thesis by simp
qed

lemma sums_after_add:
  assumes "sums_after raw k s" "0 \<le> k" "k < 50"
  shows "sums_after raw (k + 1) (add_sums s (convert_burst raw))"
proof -
  have "\<bar>k * accel_units raw i + accel_units raw i\<bar> \<le> 16777216" for i
    using scaled_count [of "accel_units raw i" "k + 1"] accel_units_range [of raw i] assms(2,3)
    by (simp add: algebra_simps)
  then show ?thesis
    using assms(1) accel_part_burst [of raw]
    by (simp add: sums_after_def accel_part_def add_sums_def add_exact distrib_right
        del: f32_add.simps)
qed

lemma div50_exact:
  assumes "\<bar>a\<bar> \<le> 16777216"
  shows "f32_div (FFin (50 * a * count_units)) (FFin (50 * 2 ^ 149)) = FFin (a * count_units)"
proof -
  have "f32_div (FFin (50 * a * count_units)) (FFin (50 * 2 ^ 149))
      = f32_round ((a * count_units) * (50 * 2 ^ 149)) (1 * (50 * 2 ^ 149))"
    by (simp add: f32_one_units_def count_units_def)
  also have "\<dots> = f32_round (a * count_units) 1" by (rule f32_round_scale) simp
  finally show ?thesis using count_round [OF assms] by simp
qed

text \<open>A device that is reachable and returns the same burst each time.\<close>

definition steady_device :: "imu_env \<Rightarrow> u8 list \<Rightarrow> bool" where
  "steady_device env raw =
     (length raw = 14 \<and> (\<forall>tr. malloc_ok env tr) \<and> (\<forall>tr c. devctl_err env tr c = EOK)
      \<and> (\<forall>tr fd a. devctl_bytes env tr (Devctl_read fd a REG_ACCEL_XOUT_H 14) = raw))"

lemma steady_read:
  "steady_device env raw \<Longrightarrow> \<exists>tr'. i2c_read_bytes env fd a REG_ACCEL_XOUT_H 14 tr = (Some raw, tr')"
  by (simp add: steady_device_def i2c_read_bytes_def Let_def)

lemma calib_loop_steady:
  assumes "steady_device env raw"
  shows "sums_after raw k s \<Longrightarrow> 0 \<le> k \<Longrightarrow> k + int n \<le> 50
    \<Longrightarrow> \<exists>s' tr'. calib_loop env m n s tr = (Some s', tr') \<and> sums_after raw (k + int n) s'"
proof (induction n arbitrary: k s tr)
  case 0
  then show ?case by simp
next
  case (Suc n)
  obtain tr1 where r: "i2c_read_bytes env (imu_fd m) (imu_addr m) REG_ACCEL_XOUT_H 14 tr = (Some raw, tr1)"
    using steady_read [OF assms] by blast
  have "sums_after raw (k + 1) (add_sums s (convert_burst raw))"
    using Suc.prems by (intro sums_after_add) auto
  then show ?case
    using Suc.IH [of "k + 1" "add_sums s (convert_burst raw)" "Usleep 20000 # tr1"] Suc.prems
    by (simp add: r add.assoc)
qed

lemma offsets_exact:
  assumes "sums_after raw 50 s"
  shows "ax_offset (offsets_of_sums s) = FFin (accel_units raw 0 * count_units)"
    and "ay_offset (offsets_of_sums s) = FFin (accel_units raw 2 * count_units)"
    and "az_offset (offsets_of_sums s) = FFin ((accel_units raw 4 - 16384) * count_units)"
proof -
  have one: "f32_lit 1 1 = FFin (16384 * count_units)" by (simp add: accel_scale count_units_def)
  have r: "\<bar>accel_units raw i\<bar> \<le> 16777216" "\<bar>accel_units raw i - 16384\<bar> \<le> 16777216" for i
    using accel_units_range [of raw i] by auto
  show "ax_offset (offsets_of_sums s) = FFin (accel_units raw 0 * count_units)"
    and "ay_offset (offsets_of_sums s) = FFin (accel_units raw 2 * count_units)"
    using assms div50_exact [OF r(1)]
    by (simp_all add: offsets_of_sums_def sums_after_def accel_part_def accel_scale(3) Let_def
        del: f32_div.simps)
  have "f32_div (az s) (f32_of_int 50) = FFin (accel_units raw 4 * count_units)"
    using assms div50_exact [OF r(1) [of 4]]
    by (simp add: sums_after_def accel_part_def accel_scale(3) del: f32_div.simps)
  then show "az_offset (offsets_of_sums s) = FFin ((accel_units raw 4 - 16384) * count_units)"
    using sub_exact [OF r(2)] by (simp add: offsets_of_sums_def Let_def one del: f32_div.simps)
qed

lemma steady_calibrate:
  assumes "steady_device env raw"
  shows "\<exists>s tr'. mpu6050_calibrate env (Some m) tr = (0, Some (m\<lparr>calib := offsets_of_sums s\<rparr>), tr')
    \<and> sums_after raw 50 s"
proof -
  have "sums_after raw 0 zero_sums"
    by (simp add: sums_after_def accel_part_def zero_sums_def)
  then obtain s tr' where "calib_loop env m 50 zero_sums tr = (Some s, tr')" "sums_after raw 50 s"
    using calib_loop_steady [OF assms, of 0 zero_sums 50 m tr] by auto
  then show ?thesis by (auto simp: mpu6050_calibrate_def)
qed

lemma steady_apply:
  assumes "sums_after raw 50 s" "v = apply_calib (offsets_of_sums s) (convert_burst raw)"
  shows "ax v = f32_0" "ay v = f32_0" "az v = f32_lit 1 1"
proof -
  have z: "f32_sub (FFin a) (FFin ((b - 16384) * count_units)) = FFin (2 ^ 149)"
    if "a = b * count_units" for a b
  proof -
    have "f32_sub (FFin a) (FFin ((b - 16384) * count_units)) = FFin ((b - (b - 16384)) * count_units)"
      unfolding that by (rule sub_exact) simp
    then show ?thesis by (simp add: count_units_def)
  qed
  show "ax v = f32_0" "ay v = f32_0" "az v = f32_lit 1 1"
    using accel_part_burst [of raw] assms(2)
    by (simp_all add: apply_calib_def offsets_exact [OF assms(1)] accel_part_def f32_sub_self z accel_scale(2))
qed

section \<open>Failures and resources\<close>

lemma mpu6050_calibrate_failure:
  "mpu6050_calibrate env (Some m) tr = (rc, m', tr') \<Longrightarrow> rc \<noteq> 0 \<Longrightarrow> rc = -1 \<and> m' = Some m"
  by (auto simp: mpu6050_calibrate_def split: prod.splits option.splits)

text \<open>The heap blocks a trace leaves allocated.\<close>

fun live_blocks :: "imu_env \<Rightarrow> imu_call list \<Rightarrow> nat list" where
  "live_blocks env [] = []"
| "live_blocks env (Malloc n # tr) = (if malloc_ok env tr then n # live_blocks env tr else live_blocks env tr)"
| "live_blocks env (Free n # tr) = remove1 n (live_blocks env tr)"
| "live_blocks env (_ # tr) = live_blocks env tr"

lemma i2c_write_reg_balanced:
  "live_blocks env (snd (i2c_write_reg env fd a r v tr)) = live_blocks env tr"
  by (simp add: i2c_write_reg_def Let_def)

lemma i2c_read_bytes_balanced:
  "live_blocks env (snd (i2c_read_bytes env fd a r n tr)) = live_blocks env tr"
  by (simp add: i2c_read_bytes_def Let_def)

lemma calib_loop_balanced: "live_blocks env (snd (calib_loop env m n s tr)) = live_blocks env tr"
proof (induction env m n s tr rule: calib_loop.induct)
  case (2 env m n sums tr)
  then show ?case
    using i2c_read_bytes_balanced [of env "imu_fd m" "imu_addr m" REG_ACCEL_XOUT_H 14 tr]
    by (auto split: prod.splits option.splits)
qed simp

lemma mpu6050_init_balanced:
  "live_blocks env (snd (snd (mpu6050_init env m fd a i tr))) = live_blocks env tr"
  using i2c_write_reg_balanced [of env fd a REG_PWR_MGMT_1 0 tr]
    i2c_read_bytes_balanced [of env fd a REG_WHO_AM_I 1]
  by (auto simp: mpu6050_init_def Let_def split: option.splits prod.splits)
    (metis live_blocks.simps(6) snd_conv)+

lemma mpu6050_calibrate_balanced:
  "live_blocks env (snd (snd (mpu6050_calibrate env m tr))) = live_blocks env tr"
  using calib_loop_balanced [of env "the m" 50 zero_sums tr]
  by (auto simp: mpu6050_calibrate_def split: option.splits prod.splits)

lemma mpu6050_read_balanced:
  "live_blocks env (snd (mpu6050_read env m out tr)) = live_blocks env tr"
  using i2c_read_bytes_balanced [of env "imu_fd (the m)" "imu_addr (the m)" REG_ACCEL_XOUT_H 14 tr]
  by (auto simp: mpu6050_read_def split: option.splits prod.splits)

text \<open>Initialisation succeeds whatever the identity register holds, and whether or not it can be read.\<close>

lemma mpu6050_init_rc:
  "fst (mpu6050_init env (Some m) fd a i tr)
     = fst (i2c_write_reg env fd a REG_PWR_MGMT_1 0 tr)"
  by (auto simp: mpu6050_init_def i2c_write_reg_def Let_def split: prod.splits)

lemma mpu6050_init_device:
  "fst (snd (mpu6050_init env (Some m) fd a i tr))
     = Some \<lparr>imu_fd = fd, imu_addr = a, imu_sensor_id = i, calib = zero_calib\<rparr>"
  by (simp add: mpu6050_init_def Let_def split: prod.splits)

text \<open>What a read returns has binary32 components.\<close>

definition imu_sample_ok :: "imu_sample \<Rightarrow> bool" where
  "imu_sample_ok v = list_all f32_ok [ax v, ay v, az v, gx v, gy v, gz v]"

lemma mpu6050_read_ok: "mpu6050_read env m out tr = (Some v, tr') \<Longrightarrow> imu_sample_ok v"
  by (auto simp: mpu6050_read_def imu_sample_ok_def apply_calib_def split: option.splits if_splits prod.splits)

end
