(* ===== verification/Sensor_Manager.thy ===== *)
theory Sensor_Manager
  imports Sensor_Buffer Ultrasonic_Driver Imu_Driver
begin

text \<open>
  \<open>src/sensor_manager.c\<close>: the layer that connects the drivers to the buffers. Its environment
  adds the file system, the monotonic clock, the mutex allocation and the sleep to those of the drivers;
  the \<open>world\<close> holds the three call traces, each answered by its own environment.
\<close>

section \<open>Data\<close>

record sensor_manager =
  us1 :: ultrasonic
  us2 :: ultrasonic
  imu1 :: mpu6050
  imu2 :: mpu6050
  i2c_fd :: int
  us1_buf :: sensor_buffer
  us2_buf :: sensor_buffer
  imu1_buf :: sensor_buffer
  imu2_buf :: sensor_buffer

definition US1_TRIG_PIN :: int where "US1_TRIG_PIN = 23"
definition US1_ECHO_PIN :: int where "US1_ECHO_PIN = 24"
definition US2_TRIG_PIN :: int where "US2_TRIG_PIN = 26"
definition US2_ECHO_PIN :: int where "US2_ECHO_PIN = 25"
definition SENSOR_PERIOD_US :: u32 where "SENSOR_PERIOD_US = 100000"

datatype mgr_call = Open_bus | Close_bus int | Mutex_init sensor_id | Clock_monotonic | Usleep u32

record mgr_env =
  us_part :: us_env
  imu_part :: imu_env
  open_rc :: "mgr_call list \<Rightarrow> int"
  mutex_rc :: "mgr_call list \<Rightarrow> int"
  mono_clock :: "mgr_call list \<Rightarrow> timespec"

record world =
  us_tr :: "us_call list"
  imu_tr :: "imu_call list"
  mgr_tr :: "mgr_call list"

text \<open>\<open>now_us()\<close>, the conversion of a clock reading to microseconds in \<open>uint64_t\<close>.\<close>

definition us_of_timespec :: "timespec \<Rightarrow> u64" where
  "us_of_timespec t = word_of_int (tv_sec t) * 1000000 + word_of_int (tv_nsec t) div 1000"

definition now_us :: "mgr_env \<Rightarrow> world \<Rightarrow> u64 \<times> world" where
  "now_us env w =
     (us_of_timespec (mono_clock env (mgr_tr w)), w\<lparr>mgr_tr := Clock_monotonic # mgr_tr w\<rparr>)"

section \<open>Initialisation and shutdown\<close>

definition init_us ::
  "mgr_env \<Rightarrow> ultrasonic \<Rightarrow> int \<Rightarrow> int \<Rightarrow> sensor_id \<Rightarrow> world \<Rightarrow> int \<times> ultrasonic \<times> world" where
  "init_us env u trig echo sid w =
     (case ultrasonic_init (us_part env) (Some u) trig echo (int (sensor_id_value sid)) (us_tr w) of
        (rc, u', tr) \<Rightarrow> (rc, (case u' of None \<Rightarrow> u | Some x \<Rightarrow> x), w\<lparr>us_tr := tr\<rparr>))"

definition init_imu ::
  "mgr_env \<Rightarrow> mpu6050 \<Rightarrow> int \<Rightarrow> u8 \<Rightarrow> sensor_id \<Rightarrow> world \<Rightarrow> int \<times> mpu6050 \<times> world" where
  "init_imu env m fd addr sid w =
     (case mpu6050_init (imu_part env) (Some m) fd addr (int (sensor_id_value sid)) (imu_tr w) of
        (rc, m', tr) \<Rightarrow> (rc, (case m' of None \<Rightarrow> m | Some x \<Rightarrow> x), w\<lparr>imu_tr := tr\<rparr>))"

text \<open>The result of a calibration is ignored, as in the code.\<close>

definition calibrate_imu :: "mgr_env \<Rightarrow> mpu6050 \<Rightarrow> world \<Rightarrow> mpu6050 \<times> world" where
  "calibrate_imu env m w =
     (case mpu6050_calibrate (imu_part env) (Some m) (imu_tr w) of
        (rc, m', tr) \<Rightarrow> ((case m' of None \<Rightarrow> m | Some x \<Rightarrow> x), w\<lparr>imu_tr := tr\<rparr>))"

definition init_buf ::
  "mgr_env \<Rightarrow> sensor_buffer \<Rightarrow> sensor_id \<Rightarrow> world \<Rightarrow> int \<times> sensor_buffer \<times> world" where
  "init_buf env b sid w =
     (case sensor_buffer_init (mutex_rc env (mgr_tr w)) (Some b) sid SENSOR_PERIOD_US of
        (rc, b') \<Rightarrow> (rc, (case b' of None \<Rightarrow> b | Some x \<Rightarrow> x),
                     w\<lparr>mgr_tr := Mutex_init sid # mgr_tr w\<rparr>))"

definition init_buffers :: "mgr_env \<Rightarrow> sensor_manager \<Rightarrow> world \<Rightarrow> int \<times> sensor_manager \<times> world" where
  "init_buffers env m w =
     (let (rc, b, w) = init_buf env (us1_buf m) SENSOR_US1 w; m = m\<lparr>us1_buf := b\<rparr> in
      if rc \<noteq> 0 then (-1, m, w) else
      let (rc, b, w) = init_buf env (us2_buf m) SENSOR_US2 w; m = m\<lparr>us2_buf := b\<rparr> in
      if rc \<noteq> 0 then (-1, m, w) else
      let (rc, b, w) = init_buf env (imu1_buf m) SENSOR_IMU1 w; m = m\<lparr>imu1_buf := b\<rparr> in
      if rc \<noteq> 0 then (-1, m, w) else
      let (rc, b, w) = init_buf env (imu2_buf m) SENSOR_IMU2 w; m = m\<lparr>imu2_buf := b\<rparr> in
      if rc \<noteq> 0 then (-1, m, w) else (0, m, w))"

definition sensor_manager_init ::
  "mgr_env \<Rightarrow> sensor_manager option \<Rightarrow> world \<Rightarrow> int \<times> sensor_manager option \<times> world" where
  "sensor_manager_init env mgr w =
     (case mgr of None \<Rightarrow> (-1, None, w)
      | Some m \<Rightarrow>
        let (rc, u, w) = init_us env (us1 m) US1_TRIG_PIN US1_ECHO_PIN SENSOR_US1 w; m = m\<lparr>us1 := u\<rparr> in
        if rc \<noteq> 0 then (-1, Some m, w) else
        let (rc, u, w) = init_us env (us2 m) US2_TRIG_PIN US2_ECHO_PIN SENSOR_US2 w; m = m\<lparr>us2 := u\<rparr> in
        if rc \<noteq> 0 then (-1, Some m, w) else
        let m = m\<lparr>i2c_fd := open_rc env (mgr_tr w)\<rparr>; w = w\<lparr>mgr_tr := Open_bus # mgr_tr w\<rparr> in
        if i2c_fd m = -1 then (-1, Some m, w) else
        let (rc, d, w) = init_imu env (imu1 m) (i2c_fd m) MPU6050_PRIMARY_ADDR SENSOR_IMU1 w;
            m = m\<lparr>imu1 := d\<rparr> in
        if rc \<noteq> 0 then (-1, Some m, w) else
        let (rc, d, w) = init_imu env (imu2 m) (i2c_fd m) MPU6050_BACKUP_ADDR SENSOR_IMU2 w;
            m = m\<lparr>imu2 := d\<rparr> in
        if rc \<noteq> 0 then (-1, Some m, w) else
        let (d, w) = calibrate_imu env (imu1 m) w; m = m\<lparr>imu1 := d\<rparr>;
            (d, w) = calibrate_imu env (imu2 m) w; m = m\<lparr>imu2 := d\<rparr>;
            (rc, m, w) = init_buffers env m w
        in (rc, Some m, w))"

definition shutdown_us :: "ultrasonic \<Rightarrow> world \<Rightarrow> ultrasonic \<times> world" where
  "shutdown_us u w =
     (case ultrasonic_shutdown (Some u) (us_tr w) of
        (u', tr) \<Rightarrow> ((case u' of None \<Rightarrow> u | Some x \<Rightarrow> x), w\<lparr>us_tr := tr\<rparr>))"

definition destroy_buf :: "sensor_buffer \<Rightarrow> sensor_buffer" where
  "destroy_buf b = (case sensor_buffer_destroy (Some b) of None \<Rightarrow> b | Some x \<Rightarrow> x)"

definition sensor_manager_shutdown ::
  "sensor_manager option \<Rightarrow> world \<Rightarrow> sensor_manager option \<times> world" where
  "sensor_manager_shutdown mgr w =
     (case mgr of None \<Rightarrow> (None, w)
      | Some m \<Rightarrow>
        let (u, w) = shutdown_us (us1 m) w; m = m\<lparr>us1 := u\<rparr>;
            (u, w) = shutdown_us (us2 m) w; m = m\<lparr>us2 := u\<rparr>;
            (m, w) = (if i2c_fd m \<noteq> -1
                      then (m\<lparr>i2c_fd := -1\<rparr>, w\<lparr>mgr_tr := Close_bus (i2c_fd m) # mgr_tr w\<rparr>)
                      else (m, w))
        in (Some (m\<lparr>us1_buf := destroy_buf (us1_buf m), us2_buf := destroy_buf (us2_buf m),
                    imu1_buf := destroy_buf (imu1_buf m), imu2_buf := destroy_buf (imu2_buf m)\<rparr>), w))"

section \<open>Acquisition\<close>

text \<open>One ultrasonic sensor of a poll; \<open>None\<close> when the read does not return.\<close>

definition poll_us ::
  "mgr_env \<Rightarrow> ultrasonic \<Rightarrow> sensor_buffer \<Rightarrow> world \<Rightarrow> (sensor_buffer \<times> world) option" where
  "poll_us env u b w =
     (case ultrasonic_read (us_part env) (Some u) True (us_tr w) of
        None \<Rightarrow> None
      | Some (rc, d, tr) \<Rightarrow>
          let w = w\<lparr>us_tr := tr\<rparr> in
          (case (rc = 0, d) of
             (True, Some distance) \<Rightarrow>
               let (t, w) = now_us env w in Some (write_into (t, [distance], 1) b, w)
           | _ \<Rightarrow> Some (b, w)))"

definition imu_values :: "imu_sample \<Rightarrow> f32 list" where
  "imu_values s = [ax s, ay s, az s, gx s, gy s, gz s]"

definition poll_imu :: "mgr_env \<Rightarrow> mpu6050 \<Rightarrow> sensor_buffer \<Rightarrow> world \<Rightarrow> sensor_buffer \<times> world" where
  "poll_imu env m b w =
     (case mpu6050_read (imu_part env) (Some m) True (imu_tr w) of
        (None, tr) \<Rightarrow> (b, w\<lparr>imu_tr := tr\<rparr>)
      | (Some sample, tr) \<Rightarrow>
          let (t, w) = now_us env (w\<lparr>imu_tr := tr\<rparr>) in (write_into (t, imu_values sample, 6) b, w))"

definition sensor_manager_poll ::
  "mgr_env \<Rightarrow> sensor_manager option \<Rightarrow> world \<Rightarrow> (sensor_manager option \<times> world) option" where
  "sensor_manager_poll env mgr w =
     (case mgr of None \<Rightarrow> Some (None, w)
      | Some m \<Rightarrow>
        (case poll_us env (us1 m) (us1_buf m) w of None \<Rightarrow> None | Some (b1, w) \<Rightarrow>
        (case poll_us env (us2 m) (us2_buf m) w of None \<Rightarrow> None | Some (b2, w) \<Rightarrow>
         let (b3, w) = poll_imu env (imu1 m) (imu1_buf m) w;
             (b4, w) = poll_imu env (imu2 m) (imu2_buf m) w
         in Some (Some (m\<lparr>us1_buf := b1, us2_buf := b2, imu1_buf := b3, imu2_buf := b4\<rparr>), w))))"

text \<open>The part of a poll that concerns one sensor, and the poll as those parts in their order.\<close>

definition poll_sensor ::
  "mgr_env \<Rightarrow> sensor_manager \<Rightarrow> sensor_id \<Rightarrow> world \<Rightarrow> (sensor_manager \<times> world) option" where
  "poll_sensor env m sid w =
     (case sid of
        SENSOR_US1 \<Rightarrow> map_option (\<lambda>(b, w). (m\<lparr>us1_buf := b\<rparr>, w)) (poll_us env (us1 m) (us1_buf m) w)
      | SENSOR_US2 \<Rightarrow> map_option (\<lambda>(b, w). (m\<lparr>us2_buf := b\<rparr>, w)) (poll_us env (us2 m) (us2_buf m) w)
      | SENSOR_IMU1 \<Rightarrow> (case poll_imu env (imu1 m) (imu1_buf m) w of (b, w) \<Rightarrow> Some (m\<lparr>imu1_buf := b\<rparr>, w))
      | SENSOR_IMU2 \<Rightarrow> (case poll_imu env (imu2 m) (imu2_buf m) w of (b, w) \<Rightarrow> Some (m\<lparr>imu2_buf := b\<rparr>, w))
      | SENSOR_COUNT \<Rightarrow> Some (m, w))"

fun poll_each ::
  "mgr_env \<Rightarrow> sensor_manager \<Rightarrow> sensor_id list \<Rightarrow> world \<Rightarrow> (sensor_manager \<times> world) option" where
  "poll_each env m [] w = Some (m, w)"
| "poll_each env m (i # is) w =
     (case poll_sensor env m i w of None \<Rightarrow> None | Some (m, w) \<Rightarrow> poll_each env m is w)"

lemma sensor_manager_poll_each:
  "sensor_manager_poll env (Some m) w
     = map_option (\<lambda>(m, w). (Some m, w)) (poll_each env m [SENSOR_US1, SENSOR_US2, SENSOR_IMU1, SENSOR_IMU2] w)"
  by (auto simp: sensor_manager_poll_def poll_sensor_def Let_def split: option.splits prod.splits)

fun mgr_buffer :: "sensor_manager \<Rightarrow> sensor_id \<Rightarrow> sensor_buffer option" where
  "mgr_buffer m SENSOR_US1 = Some (us1_buf m)"
| "mgr_buffer m SENSOR_US2 = Some (us2_buf m)"
| "mgr_buffer m SENSOR_IMU1 = Some (imu1_buf m)"
| "mgr_buffer m SENSOR_IMU2 = Some (imu2_buf m)"
| "mgr_buffer m SENSOR_COUNT = None"

definition sensor_manager_get_buffer ::
  "sensor_manager option \<Rightarrow> sensor_id \<Rightarrow> sensor_buffer option" where
  "sensor_manager_get_buffer mgr sid = (case mgr of None \<Rightarrow> None | Some m \<Rightarrow> mgr_buffer m sid)"

lemma get_buffer_Some [simp]: "sensor_manager_get_buffer (Some m) i = mgr_buffer m i"
  by (simp add: sensor_manager_get_buffer_def)

section \<open>What the buffers of a running manager hold\<close>

text \<open>An ultrasonic entry is one distance the driver may report; an inertial entry is six values.\<close>

definition range_entry :: "u64 \<times> f32 list \<Rightarrow> bool" where
  "range_entry e = (\<exists>x. snd e = [x] \<and> f32_ok x \<and> f32_lt f32_0 x \<and> f32_le x MAX_DISTANCE_CM)"

definition inertial_entry :: "u64 \<times> f32 list \<Rightarrow> bool" where
  "inertial_entry e = (length (snd e) = 6)"

definition holds_only :: "(u64 \<times> f32 list \<Rightarrow> bool) \<Rightarrow> sensor_buffer \<Rightarrow> bool" where
  "holds_only P b = (buffer_inv b \<and> (\<forall>e \<in> set (map time_values (history b)). P e))"

definition mgr_inv :: "sensor_manager \<Rightarrow> bool" where
  "mgr_inv m =
     (holds_only range_entry (us1_buf m) \<and> holds_only range_entry (us2_buf m)
      \<and> holds_only inertial_entry (imu1_buf m) \<and> holds_only inertial_entry (imu2_buf m)
      \<and> buf_sensor_id (us1_buf m) = SENSOR_US1 \<and> buf_sensor_id (us2_buf m) = SENSOR_US2
      \<and> buf_sensor_id (imu1_buf m) = SENSOR_IMU1 \<and> buf_sensor_id (imu2_buf m) = SENSOR_IMU2)"

lemma holds_only_put:
  assumes "holds_only P b" "write_args_ok vs vc" "P (t, take (unat vc) vs)"
  shows "holds_only P (write_into (t, vs, vc) b)"
proof -
  have b: "buffer_inv b" using assms(1) by (simp add: holds_only_def)
  have ok: "case (t, vs, vc) of (t, vs, vc) \<Rightarrow> write_args_ok vs vc" using assms(2) by simp
  have "P e" if "e \<in> set (map time_values (history (write_into (t, vs, vc) b)))" for e
    using buf.put_entries [OF b ok that] assms(1,3) by (auto simp: holds_only_def)
  then show ?thesis using buf.inv_put [OF b ok] by (simp add: holds_only_def)
qed

lemma write_into_id [simp]: "buf_sensor_id (write_into a b) = buf_sensor_id b"
  by (simp add: write_into_def sensor_buffer_write_Some store_sample_def split: prod.splits)

text \<open>
  What the manager relies on of a driver: the values it reports can be written with the count the
  manager passes, and make an entry of the kind the buffer is to hold. A poll then keeps the buffer
  to that kind.
\<close>

locale sampling_driver =
  fixes reports :: "'d \<Rightarrow> f32 list \<Rightarrow> bool"
    and vc :: u8
    and entry :: "u64 \<times> f32 list \<Rightarrow> bool"
  assumes reports_args: "reports d vs \<Longrightarrow> write_args_ok vs vc"
    and reports_entry: "reports d vs \<Longrightarrow> entry (t, take (unat vc) vs)"
begin

lemma poll_holds:
  assumes "b' = b \<or> (\<exists>t vs. reports d vs \<and> b' = write_into (t, vs, vc) b)" "holds_only entry b"
  shows "holds_only entry b' \<and> buf_sensor_id b' = buf_sensor_id b"
  using assms holds_only_put [OF assms(2) reports_args reports_entry] by auto

end

lemma measure_distance_ok:
  "measure_distance env s tr = (rc, Some x, tr') \<Longrightarrow> f32_ok x"
  by (auto simp: measure_distance_def distance_of_ns_def Let_def split: prod.splits if_splits
      simp del: f32_ok.simps)

lemma ultrasonic_read_success:
  assumes "ultrasonic_read env (Some s) True tr = Some (0, d, tr')"
  shows "\<exists>x. d = Some x \<and> f32_ok x \<and> f32_lt f32_0 x \<and> f32_le x MAX_DISTANCE_CM"
proof -
  from assms obtain tr0 where m: "measure_distance env s tr0 = (0, d, tr')"
    by (auto simp: ultrasonic_read_def)
  then obtain x where "d = Some x" "f32_lt f32_0 x" "f32_le x MAX_DISTANCE_CM"
    using measure_distance_success by blast
  with m show ?thesis using measure_distance_ok by blast
qed

text \<open>The two drivers: what their successful reads report.\<close>

definition us_reports :: "us_env \<times> ultrasonic \<Rightarrow> f32 list \<Rightarrow> bool" where
  "us_reports d vs = (\<exists>tr x tr'. ultrasonic_read (fst d) (Some (snd d)) True tr = Some (0, Some x, tr') \<and> vs = [x])"

definition imu_reports :: "imu_env \<times> mpu6050 \<Rightarrow> f32 list \<Rightarrow> bool" where
  "imu_reports d vs = (\<exists>tr v tr'. mpu6050_read (fst d) (Some (snd d)) True tr = (Some v, tr') \<and> vs = imu_values v)"

interpretation ranger: sampling_driver us_reports 1 range_entry
proof unfold_locales
  fix d :: "us_env \<times> ultrasonic" and vs :: "f32 list" and t :: u64
  assume "us_reports d vs"
  then obtain x where "vs = [x]" "f32_ok x" "f32_lt f32_0 x" "f32_le x MAX_DISTANCE_CM"
    using ultrasonic_read_success by (fastforce simp: us_reports_def)
  then show "write_args_ok vs 1" "range_entry (t, take (unat (1 :: u8)) vs)"
    by (simp_all add: write_args_ok_def range_entry_def)
qed

interpretation inertial: sampling_driver imu_reports 6 inertial_entry
proof unfold_locales
  fix d :: "imu_env \<times> mpu6050" and vs :: "f32 list" and t :: u64
  assume "imu_reports d vs"
  then obtain v where "vs = imu_values v" "imu_sample_ok v"
    using mpu6050_read_ok by (fastforce simp: imu_reports_def)
  then show "write_args_ok vs 6" "inertial_entry (t, take (unat (6 :: u8)) vs)"
    by (simp_all add: write_args_ok_def imu_values_def imu_sample_ok_def inertial_entry_def)
qed

text \<open>A poll of one sensor either leaves the buffer alone or adds what the driver reported.\<close>

lemma poll_us_cases:
  assumes "poll_us env u b w = Some (b', w')"
  shows "b' = b \<or> (\<exists>t vs. us_reports (us_part env, u) vs \<and> b' = write_into (t, vs, 1) b)"
proof -
  from assms obtain rc d tr where
    r: "ultrasonic_read (us_part env) (Some u) True (us_tr w) = Some (rc, d, tr)"
    by (auto simp: poll_us_def split: option.splits)
  show ?thesis
  proof (cases "rc = 0 \<and> d \<noteq> None")
    case True
    then obtain x where x: "rc = 0" "d = Some x" by auto
    then have "us_reports (us_part env, u) [x]" using r by (auto simp: us_reports_def)
    with r x assms show ?thesis by (auto simp: poll_us_def now_us_def Let_def)
  next
    case False
    with r assms show ?thesis by (auto simp: poll_us_def Let_def split: bool.splits option.splits)
  qed
qed

lemma poll_imu_cases:
  assumes "poll_imu env m b w = (b', w')"
  shows "b' = b \<or> (\<exists>t vs. imu_reports (imu_part env, m) vs \<and> b' = write_into (t, vs, 6) b)"
proof (cases "mpu6050_read (imu_part env) (Some m) True (imu_tr w)")
  case (Pair r tr)
  show ?thesis
  proof (cases r)
    case (Some v)
    then have "imu_reports (imu_part env, m) (imu_values v)" using Pair by (auto simp: imu_reports_def)
    then show ?thesis using assms Pair Some by (auto simp: poll_imu_def now_us_def Let_def)
  qed (use assms Pair in \<open>simp add: poll_imu_def\<close>)
qed

lemmas poll_us_holds = ranger.poll_holds [OF poll_us_cases]
lemmas poll_imu_holds = inertial.poll_holds [OF poll_imu_cases]

lemma poll_sensor_inv:
  assumes "poll_sensor env m i w = Some (m', w')" "mgr_inv m"
  shows "mgr_inv m'"
  using assms
  by (cases i)
    (auto simp: poll_sensor_def mgr_inv_def split: prod.splits dest!: poll_us_holds poll_imu_holds)

lemma poll_each_inv: "poll_each env m is w = Some (m', w') \<Longrightarrow> mgr_inv m \<Longrightarrow> mgr_inv m'"
proof (induction "is" arbitrary: m w)
  case (Cons i "is")
  then show ?case by (auto split: option.splits dest: poll_sensor_inv)
qed simp

lemma sensor_manager_poll_inv:
  assumes "sensor_manager_poll env (Some m) w = Some (m', w')" "mgr_inv m"
  shows "\<exists>x. m' = Some x \<and> mgr_inv x"
  using assms by (auto simp: sensor_manager_poll_each simp del: poll_each.simps dest: poll_each_inv)

lemma poll_us_returns:
  assumes "pulses_run_out (us_part env) (chid u)"
  shows "\<exists>r. poll_us env u b w = Some r"
proof -
  obtain tr where "drain_events (us_part env) (chid u) (us_tr w) = Some tr"
    using drain_events_returns [OF assms] by blast
  then show ?thesis
    by (auto simp: poll_us_def ultrasonic_read_def now_us_def Let_def split: prod.splits option.splits bool.splits)
qed

lemma poll_sensor_returns:
  assumes "\<forall>ch. pulses_run_out (us_part env) ch"
  shows "\<exists>m' w'. poll_sensor env m i w = Some (m', w')"
  using assms poll_us_returns [of env "us1 m" "us1_buf m" w] poll_us_returns [of env "us2 m" "us2_buf m" w]
  by (cases i) (auto simp: poll_sensor_def split: prod.splits)

lemma poll_each_returns:
  assumes "\<forall>ch. pulses_run_out (us_part env) ch"
  shows "\<exists>m' w'. poll_each env m is w = Some (m', w')"
proof (induction "is" arbitrary: m w)
  case (Cons i "is")
  then show ?case using poll_sensor_returns [OF assms, of m i w] by auto
qed simp

lemma sensor_manager_poll_returns:
  assumes "\<forall>ch. pulses_run_out (us_part env) ch"
  shows "\<exists>m' w'. sensor_manager_poll env (Some m) w = Some (Some m', w')"
  using poll_each_returns [OF assms] by (fastforce simp: sensor_manager_poll_each simp del: poll_each.simps)

section \<open>Initialisation\<close>

lemma init_buf_ok:
  assumes "init_buf env b i w = (0, b', w')"
  shows "b' = zero_buffer\<lparr>buf_sensor_id := i, expected_period_us := SENSOR_PERIOD_US, lock := Mutex_Ready\<rparr>"
  using assms by (auto simp: init_buf_def sensor_buffer_init_def Let_def split: if_splits)

lemma holds_only_zero:
  "holds_only P (zero_buffer\<lparr>buf_sensor_id := i, expected_period_us := p, lock := l\<rparr>)"
  by (simp add: holds_only_def zero_buffer_inv history_zero_buffer)

lemma init_buffers_inv:
  assumes "init_buffers env m w = (0, m', w')"
  shows "mgr_inv m' \<and> (\<forall>i. real_sensor i \<longrightarrow> map_option history (mgr_buffer m' i) = Some [])"
proof -
  from assms obtain b1 w1 b2 w2 b3 w3 b4 where p:
    "init_buf env (us1_buf m) SENSOR_US1 w = (0, b1, w1)"
    "init_buf env (us2_buf m) SENSOR_US2 w1 = (0, b2, w2)"
    "init_buf env (imu1_buf m) SENSOR_IMU1 w2 = (0, b3, w3)"
    "init_buf env (imu2_buf m) SENSOR_IMU2 w3 = (0, b4, w')"
    "m' = m\<lparr>us1_buf := b1, us2_buf := b2, imu1_buf := b3, imu2_buf := b4\<rparr>"
    by (auto simp: init_buffers_def Let_def split: if_splits prod.splits)
  note b = p(1-4) [THEN init_buf_ok]
  have "map_option history (mgr_buffer m' i) = Some []" if "real_sensor i" for i
    using that by (cases i) (simp_all add: p(5) b history_zero_buffer real_sensor_iff)
  then show ?thesis
    using holds_only_zero by (simp add: mgr_inv_def p(5) b)
qed

lemma sensor_manager_init_ok:
  assumes "sensor_manager_init env (Some m) w = (0, m', w')"
  shows "\<exists>x. m' = Some x \<and> mgr_inv x
    \<and> (\<forall>i. real_sensor i \<longrightarrow> map_option history (mgr_buffer x i) = Some [])"
  using assms
  by (auto simp: sensor_manager_init_def Let_def dest!: init_buffers_inv split: prod.splits if_splits)

lemma mgr_buffer_id: "mgr_inv m \<Longrightarrow> mgr_buffer m i = Some b \<Longrightarrow> buf_sensor_id b = i"
  by (cases i) (auto simp: mgr_inv_def)

lemma mgr_buffer_inv: "mgr_inv m \<Longrightarrow> mgr_buffer m i = Some b \<Longrightarrow> buffer_inv b"
  by (cases i) (auto simp: mgr_inv_def holds_only_def)

lemma mgr_buffer_real: "(mgr_buffer m i \<noteq> None) = real_sensor i"
  by (cases i) (simp_all add: real_sensor_iff)

end
