(* ===== verification/Fault_Detector.thy ===== *)
theory Fault_Detector
  imports Sensor_Buffer
begin

text \<open>
  \<open>src/fault_detector.c\<close>: the four fault checks on a sensor's history and the per-sensor state
  machine. The functions that take a context pointer are given twice: the body on a context,
  and the function with its \<open>NULL\<close> guard.
\<close>

section \<open>Data\<close>

record fdi_config =
  delay_timeout_us :: u32
  stuck_threshold :: f32
  noise_threshold :: f32
  contradiction_threshold :: f32
  fault_confirm_limit :: u8
  recovery_confirm_limit :: u8

record fdi_context =
  ctx_id :: sensor_id
  redundant_id :: sensor_id
  cfg :: fdi_config
  state :: sensor_state
  last_fault :: fault_type
  fault_streak :: u8
  recovery_streak :: u8
  validation_streak :: u8

definition init_context :: "fdi_context \<Rightarrow> sensor_id \<Rightarrow> fdi_config \<Rightarrow> fdi_context" where
  "init_context ctx sid c =
     ctx\<lparr>ctx_id := sid, redundant_id := sensor_redundant_pair sid, cfg := c,
         state := STATE_HEALTHY, last_fault := FAULT_NONE,
         fault_streak := 0, recovery_streak := 0, validation_streak := 0\<rparr>"

definition fdi_context_init ::
  "fdi_context option \<Rightarrow> sensor_id \<Rightarrow> fdi_config option \<Rightarrow> fdi_context option" where
  "fdi_context_init ctx sid c =
     (case (ctx, c) of (Some x, Some y) \<Rightarrow> Some (init_context x sid y) | _ \<Rightarrow> ctx)"

section \<open>Fault checks\<close>

text \<open>Whether a newest sample of time \<open>ts\<close> is too old; one from the future is not.\<close>

definition stale :: "fdi_context \<Rightarrow> u64 \<Rightarrow> u64 \<Rightarrow> bool" where
  "stale ctx ts now_us =
     (if now_us < ts then False
      else now_us - ts > ucast (delay_timeout_us (cfg ctx)))"

definition check_delayed :: "fdi_context \<Rightarrow> sensor_buffer option \<Rightarrow> u64 \<Rightarrow> bool" where
  "check_delayed ctx buf now_us =
     (if sensor_buffer_count buf = 0 then True
      else stale ctx (sensor_buffer_last_timestamp buf) now_us)"

text \<open>
  The window \<open>hist\<close> with its length \<open>n\<close>: \<open>sensor_buffer_read_history\<close> leaves \<open>n\<close> at 0
  when it fails.
\<close>

definition read_window :: "sensor_buffer option \<Rightarrow> sensor_sample list" where
  "read_window buf =
     (case sensor_buffer_read_history buf True (word_of_int SENSOR_BUFFER_LEN) True of
        None \<Rightarrow> [] | Some h \<Rightarrow> h)"

definition column :: "sensor_sample list \<Rightarrow> nat \<Rightarrow> f32 list" where
  "column hist c = map (\<lambda>s. value s ! c) hist"

fun min_max :: "f32 \<Rightarrow> f32 \<Rightarrow> f32 list \<Rightarrow> f32 \<times> f32" where
  "min_max mn mx [] = (mn, mx)"
| "min_max mn mx (v # vs) =
     min_max (if f32_lt v mn then v else mn) (if f32_gt v mx then v else mx) vs"

definition spread :: "f32 list \<Rightarrow> f32" where
  "spread vs = (case min_max (hd vs) (hd vs) (tl vs) of (mn, mx) \<Rightarrow> f32_sub mx mn)"

definition check_stuck :: "fdi_context \<Rightarrow> sensor_buffer option \<Rightarrow> bool" where
  "check_stuck ctx buf =
     (let hist = read_window buf
      in if int (length hist) < SENSOR_BUFFER_LEN then False
         else list_all (\<lambda>c. \<not> f32_gt (spread (column hist c)) (stuck_threshold (cfg ctx)))
                [0..<unat (value_count (hist ! 0))])"

definition jump :: "f32 \<Rightarrow> f32 \<Rightarrow> f32" where
  "jump v w = (let delta = f32_sub v w in if f32_lt delta f32_0 then f32_neg delta else delta)"

definition check_noisy :: "fdi_context \<Rightarrow> sensor_buffer option \<Rightarrow> bool" where
  "check_noisy ctx buf =
     (let hist = read_window buf
      in if int (length hist) < SENSOR_BUFFER_LEN then False
         else list_ex (\<lambda>c. list_ex (\<lambda>i.
                  f32_gt (jump (value (hist ! i) ! c) (value (hist ! (i - 1)) ! c))
                    (noise_threshold (cfg ctx))) [1..<length hist])
                [0..<unat (value_count (hist ! 0))])"

fun sum_squares :: "f32 \<Rightarrow> f32 list \<Rightarrow> f32 list \<Rightarrow> f32" where
  "sum_squares acc (x # xs) (y # ys) =
     (let d = f32_sub x y in sum_squares (f32_add acc (f32_mul d d)) xs ys)"
| "sum_squares acc _ _ = acc"

text \<open>The Euclidean distance of two samples, over the values they share, against the threshold.\<close>

definition samples_differ :: "fdi_context \<Rightarrow> sensor_sample \<Rightarrow> sensor_sample \<Rightarrow> bool" where
  "samples_differ ctx a b =
     (let vc = (if value_count a < value_count b then value_count a else value_count b);
          sumsq = sum_squares f32_0 (take (unat vc) (value a)) (take (unat vc) (value b))
      in f32_gt (f32_sqrt sumsq) (contradiction_threshold (cfg ctx)))"

definition check_contradictory ::
  "fdi_context \<Rightarrow> sensor_buffer option \<Rightarrow> sensor_buffer option \<Rightarrow> bool" where
  "check_contradictory ctx self_buf redundant_buf =
     (if redundant_buf = None then False
      else case sensor_buffer_get_latest self_buf True of None \<Rightarrow> False | Some a \<Rightarrow>
        (case sensor_buffer_get_latest redundant_buf True of None \<Rightarrow> False | Some b \<Rightarrow>
          samples_differ ctx a b))"

definition fdi_detect ::
  "fdi_context option \<Rightarrow> sensor_buffer option \<Rightarrow> sensor_buffer option \<Rightarrow> u64 \<Rightarrow> fault_type" where
  "fdi_detect ctx self_buf redundant_buf now_us =
     (case (ctx, self_buf) of
        (Some c, Some _) \<Rightarrow>
          if check_delayed c self_buf now_us then FAULT_DELAYED
          else if check_stuck c self_buf then FAULT_STUCK
          else if check_noisy c self_buf then FAULT_NOISY
          else if check_contradictory c self_buf redundant_buf then FAULT_CONTRADICTORY
          else FAULT_NONE
      | _ \<Rightarrow> FAULT_NONE)"

section \<open>State machine\<close>

definition update_ctx :: "fdi_context \<Rightarrow> fault_type \<Rightarrow> fdi_context" where
  "update_ctx c0 detected =
     (let c = c0\<lparr>last_fault := detected\<rparr> in
      case state c of
        STATE_HEALTHY \<Rightarrow>
          if detected \<noteq> FAULT_NONE then c\<lparr>fault_streak := 1, state := STATE_SUSPECT\<rparr> else c
      | STATE_SUSPECT \<Rightarrow>
          if detected \<noteq> FAULT_NONE then
            if detected = FAULT_CONTRADICTORY then c\<lparr>recovery_streak := 0\<rparr>
            else
              let c' = c\<lparr>fault_streak := fault_streak c + 1, recovery_streak := 0\<rparr>
              in if fault_streak c' \<ge> fault_confirm_limit (cfg c') then c'\<lparr>state := STATE_FAULTED\<rparr>
                 else c'
          else
            let c' = c\<lparr>recovery_streak := recovery_streak c + 1\<rparr>
            in if recovery_streak c' \<ge> recovery_confirm_limit (cfg c')
               then c'\<lparr>state := STATE_HEALTHY, fault_streak := 0, recovery_streak := 0\<rparr> else c'
      | STATE_FAULTED \<Rightarrow> c
      | _ \<Rightarrow> c)"

definition fdi_update_state ::
  "fdi_context option \<Rightarrow> fault_type \<Rightarrow> sensor_state \<times> fdi_context option" where
  "fdi_update_state ctx detected =
     (case ctx of None \<Rightarrow> (STATE_HEALTHY, None)
      | Some c \<Rightarrow> let c' = update_ctx c detected in (state c', Some c'))"

definition isolate_ctx :: "fdi_context \<Rightarrow> fdi_context" where
  "isolate_ctx c = (if state c = STATE_FAULTED then c\<lparr>state := STATE_EXCLUDED\<rparr> else c)"

definition fdi_isolate :: "fdi_context option \<Rightarrow> fdi_context option" where
  "fdi_isolate ctx = map_option isolate_ctx ctx"

definition start_probe_ctx :: "fdi_context \<Rightarrow> fdi_context" where
  "start_probe_ctx c =
     (if state c = STATE_EXCLUDED then c\<lparr>state := STATE_PROBING, validation_streak := 0\<rparr> else c)"

definition fdi_start_probe :: "fdi_context option \<Rightarrow> fdi_context option" where
  "fdi_start_probe ctx = map_option start_probe_ctx ctx"

definition probe_ctx :: "fdi_context \<Rightarrow> fault_type \<Rightarrow> fdi_context" where
  "probe_ctx c0 detected =
     (let c = c0\<lparr>last_fault := detected\<rparr> in
      if state c = STATE_PROBING then
        if detected = FAULT_NONE then c\<lparr>state := STATE_VALIDATING, validation_streak := 1\<rparr>
        else c\<lparr>state := STATE_EXCLUDED\<rparr>
      else if state c = STATE_VALIDATING then
        if detected = FAULT_NONE then
          let c' = c\<lparr>validation_streak := validation_streak c + 1\<rparr>
          in if validation_streak c' \<ge> recovery_confirm_limit (cfg c')
             then c'\<lparr>state := STATE_HEALTHY, fault_streak := 0, recovery_streak := 0,
                      validation_streak := 0\<rparr>
             else c'
        else c\<lparr>state := STATE_EXCLUDED\<rparr>
      else c)"

definition fdi_probe_evaluate ::
  "fdi_context option \<Rightarrow> fault_type \<Rightarrow> sensor_state \<times> fdi_context option" where
  "fdi_probe_evaluate ctx detected =
     (case ctx of None \<Rightarrow> (STATE_HEALTHY, None)
      | Some c \<Rightarrow> let c' = probe_ctx c detected in (state c', Some c'))"

lemma fdi_calls [simp]:
  "fdi_update_state (Some c) d = (state (update_ctx c d), Some (update_ctx c d))"
  "fdi_isolate (Some c) = Some (isolate_ctx c)"
  "fdi_start_probe (Some c) = Some (start_probe_ctx c)"
  "fdi_probe_evaluate (Some c) d = (state (probe_ctx c d), Some (probe_ctx c d))"
  by (simp_all add: fdi_update_state_def fdi_isolate_def fdi_start_probe_def
      fdi_probe_evaluate_def Let_def)

lemmas [c_ops] = isolate_ctx_def

end
