(* ===== verification/Fault_State.thy ===== *)
theory Fault_State
  imports Fault_Detector
begin

text \<open>
  The per-sensor state machine of \<open>src/fault_detector.c\<close>: the transition diagram it implements,
  its counters, and what a run of detections does to a sensor.
\<close>

section \<open>The transition diagram\<close>

inductive fsm_edge :: "sensor_state \<Rightarrow> sensor_state \<Rightarrow> bool" where
  suspect: "fsm_edge STATE_HEALTHY STATE_SUSPECT"
| cleared: "fsm_edge STATE_SUSPECT STATE_HEALTHY"
| confirmed: "fsm_edge STATE_SUSPECT STATE_FAULTED"
| isolated: "fsm_edge STATE_FAULTED STATE_EXCLUDED"
| probed: "fsm_edge STATE_EXCLUDED STATE_PROBING"
| probe_clean: "fsm_edge STATE_PROBING STATE_VALIDATING"
| probe_failed: "fsm_edge STATE_PROBING STATE_EXCLUDED"
| reintegrated: "fsm_edge STATE_VALIDATING STATE_HEALTHY"
| validation_failed: "fsm_edge STATE_VALIDATING STATE_EXCLUDED"

code_pred fsm_edge .

inductive_simps fsm_edge_from [simp]:
  "fsm_edge STATE_HEALTHY s"
  "fsm_edge STATE_SUSPECT s"
  "fsm_edge STATE_FAULTED s"
  "fsm_edge STATE_EXCLUDED s"
  "fsm_edge STATE_PROBING s"
  "fsm_edge STATE_VALIDATING s"

inductive_cases fsm_edge_to_healthy: "fsm_edge s STATE_HEALTHY"
inductive_cases fsm_edge_to_excluded: "fsm_edge s STATE_EXCLUDED"

text \<open>
  A machine whose steps keep an invariant and move the sensor along the diagram or not at all.
  Every operation on a context is one; so are the threads built from them.
\<close>

locale guarded_machine =
  fixes inv :: "'s \<Rightarrow> bool"
    and st :: "'s \<Rightarrow> sensor_state"
    and step :: "'i \<Rightarrow> 's \<Rightarrow> 's"
  assumes step_inv: "inv s \<Longrightarrow> inv (step i s)"
    and step_path: "inv s \<Longrightarrow> fsm_edge\<^sup>*\<^sup>* (st s) (st (step i s))"
begin

lemma run_inv: "inv s \<Longrightarrow> inv (fold step is s)"
  by (induction "is" arbitrary: s) (auto intro: step_inv)

lemma run_path: "inv s \<Longrightarrow> fsm_edge\<^sup>*\<^sup>* (st s) (st (fold step is s))"
proof (induction "is" arbitrary: s)
  case Nil
  show ?case by simp
next
  case (Cons i ils)
  have "fsm_edge\<^sup>*\<^sup>* (st s) (st (step i s))" using Cons.prems by (rule step_path)
  also have "fsm_edge\<^sup>*\<^sup>* (st (step i s)) (st (fold step ils (step i s)))"
    using Cons.prems by (intro Cons.IH step_inv)
  finally show ?case by simp
qed

end

section \<open>Counters\<close>

definition ctx_inv :: "fdi_context \<Rightarrow> bool" where
  [c_inv]: "ctx_inv c =
     (redundant_id c = sensor_redundant_pair (ctx_id c)
      \<and> (case state c of
           STATE_HEALTHY \<Rightarrow> fault_streak c = 0 \<and> recovery_streak c = 0
         | STATE_SUSPECT \<Rightarrow>
             1 \<le> fault_streak c \<and> (fault_streak c = 1 \<or> fault_streak c < fault_confirm_limit (cfg c))
             \<and> (recovery_streak c = 0 \<or> recovery_streak c < recovery_confirm_limit (cfg c))
         | STATE_PROBING \<Rightarrow> validation_streak c = 0
         | STATE_VALIDATING \<Rightarrow>
             1 \<le> validation_streak c
             \<and> (validation_streak c = 1 \<or> validation_streak c < recovery_confirm_limit (cfg c))
         | _ \<Rightarrow> True))"

lemma u8_inc_ge1: "(x :: u8) < l \<Longrightarrow> 1 \<le> x + 1"
  using u8_less_imp_small [of x l] by (auto simp: word_le_nat_alt u8_inc_unat)

lemma init_context_inv: "ctx_inv (init_context c i g)"
  by (simp add: ctx_inv_def init_context_def)

lemma update_ctx_inv: "ctx_inv c \<Longrightarrow> ctx_inv (update_ctx c d)"
  by (auto simp: ctx_inv_def update_ctx_def Let_def not_le intro: u8_inc_ge1 split: sensor_state.splits)

lemma isolate_ctx_inv: "ctx_inv c \<Longrightarrow> ctx_inv (isolate_ctx c)"
  by (auto simp: ctx_inv_def isolate_ctx_def split: sensor_state.splits)

lemma start_probe_ctx_inv: "ctx_inv c \<Longrightarrow> ctx_inv (start_probe_ctx c)"
  by (auto simp: ctx_inv_def start_probe_ctx_def split: sensor_state.splits)

lemma probe_ctx_inv: "ctx_inv c \<Longrightarrow> ctx_inv (probe_ctx c d)"
  by (auto simp: ctx_inv_def probe_ctx_def Let_def not_le intro: u8_inc_ge1 split: sensor_state.splits)

lemma ctx_inv_last_fault [simp]: "ctx_inv (c\<lparr>last_fault := d\<rparr>) = ctx_inv c"
  by (simp add: ctx_inv_def split: sensor_state.splits)

lemmas ctx_inv_ops = init_context_inv update_ctx_inv isolate_ctx_inv start_probe_ctx_inv probe_ctx_inv

section \<open>Every operation follows the diagram\<close>

lemma update_ctx_edge: "state (update_ctx c d) = state c \<or> fsm_edge (state c) (state (update_ctx c d))"
  by (cases "state c") (auto simp: update_ctx_def Let_def)

lemma isolate_ctx_edge: "state (isolate_ctx c) = state c \<or> fsm_edge (state c) (state (isolate_ctx c))"
  by (cases "state c") (auto simp: isolate_ctx_def)

lemma start_probe_ctx_edge:
  "state (start_probe_ctx c) = state c \<or> fsm_edge (state c) (state (start_probe_ctx c))"
  by (cases "state c") (auto simp: start_probe_ctx_def)

lemma probe_ctx_edge: "state (probe_ctx c d) = state c \<or> fsm_edge (state c) (state (probe_ctx c d))"
  by (cases "state c") (auto simp: probe_ctx_def Let_def)

lemma edge_path: "s' = s \<or> fsm_edge s s' \<Longrightarrow> fsm_edge\<^sup>*\<^sup>* s s'"
  by auto

interpretation upd: guarded_machine ctx_inv state "\<lambda>d c. update_ctx c d"
  by unfold_locales (rule update_ctx_inv, assumption, rule edge_path [OF update_ctx_edge])

interpretation prb: guarded_machine ctx_inv state "\<lambda>d c. probe_ctx c d"
  by unfold_locales (rule probe_ctx_inv, assumption, rule edge_path [OF probe_ctx_edge])

text \<open>The fields no operation writes.\<close>

lemma update_ctx_frame [simp]:
  "ctx_id (update_ctx c d) = ctx_id c" "redundant_id (update_ctx c d) = redundant_id c"
  "cfg (update_ctx c d) = cfg c" "last_fault (update_ctx c d) = d"
  "validation_streak (update_ctx c d) = validation_streak c"
  by (cases "state c"; simp add: update_ctx_def Let_def)+

lemma isolate_ctx_frame [simp]:
  "ctx_id (isolate_ctx c) = ctx_id c" "redundant_id (isolate_ctx c) = redundant_id c"
  "cfg (isolate_ctx c) = cfg c" "last_fault (isolate_ctx c) = last_fault c"
  by (simp_all add: isolate_ctx_def)

lemma start_probe_ctx_frame [simp]:
  "ctx_id (start_probe_ctx c) = ctx_id c" "redundant_id (start_probe_ctx c) = redundant_id c"
  "cfg (start_probe_ctx c) = cfg c" "last_fault (start_probe_ctx c) = last_fault c"
  by (simp_all add: start_probe_ctx_def)

lemma probe_ctx_frame [simp]:
  "ctx_id (probe_ctx c d) = ctx_id c" "redundant_id (probe_ctx c d) = redundant_id c"
  "cfg (probe_ctx c d) = cfg c" "last_fault (probe_ctx c d) = d"
  by (simp_all add: probe_ctx_def Let_def)

section \<open>Runs of detections\<close>

definition updates :: "fdi_context \<Rightarrow> fault_type list \<Rightarrow> fdi_context" where
  "updates c ds = fold (\<lambda>d c. update_ctx c d) ds c"

definition probes :: "fdi_context \<Rightarrow> fault_type list \<Rightarrow> fdi_context" where
  "probes c ds = fold (\<lambda>d c. probe_ctx c d) ds c"

lemma updates_simps [simp]:
  "updates c [] = c" "updates c (d # ds) = updates (update_ctx c d) ds"
  "updates c (ds @ es) = updates (updates c ds) es"
  by (simp_all add: updates_def)

lemma probes_simps [simp]:
  "probes c [] = c" "probes c (d # ds) = probes (probe_ctx c d) ds"
  "probes c (ds @ es) = probes (probes c ds) es"
  by (simp_all add: probes_def)

lemma updates_cfg [simp]: "cfg (updates c ds) = cfg c"
  by (induction ds rule: rev_induct) simp_all

lemma probes_cfg [simp]: "cfg (probes c ds) = cfg c"
  by (induction ds rule: rev_induct) simp_all

text \<open>The faults that condemn a sensor: all but a disagreement with its twin.\<close>

definition definitive :: "fault_type \<Rightarrow> bool" where
  "definitive d = (d \<noteq> FAULT_NONE \<and> d \<noteq> FAULT_CONTRADICTORY)"

definition confirm_limit :: "fdi_context \<Rightarrow> nat" where
  "confirm_limit c = unat (fault_confirm_limit (cfg c))"

definition recover_limit :: "fdi_context \<Rightarrow> nat" where
  "recover_limit c = unat (recovery_confirm_limit (cfg c))"

lemma limits_frame [simp]:
  "confirm_limit (updates c ds) = confirm_limit c" "recover_limit (updates c ds) = recover_limit c"
  "confirm_limit (update_ctx c d) = confirm_limit c" "recover_limit (update_ctx c d) = recover_limit c"
  "recover_limit (probes c ds) = recover_limit c" "recover_limit (start_probe_ctx c) = recover_limit c"
  by (simp_all add: confirm_limit_def recover_limit_def)

lemma limits_byte: "confirm_limit c < 256" "recover_limit c < 256"
  by (simp_all add: confirm_limit_def recover_limit_def u8_unat_bound)

text \<open>The steps, with the counters read as numbers.\<close>

lemma step_suspect_definitive:
  assumes "state c = STATE_SUSPECT" "definitive d" "unat (fault_streak c) < 255"
  shows "unat (fault_streak (update_ctx c d)) = Suc (unat (fault_streak c))"
    and "recovery_streak (update_ctx c d) = 0"
    and "state (update_ctx c d)
         = (if confirm_limit c \<le> Suc (unat (fault_streak c)) then STATE_FAULTED else STATE_SUSPECT)"
  using assms
  by (auto simp: update_ctx_def Let_def definitive_def u8_inc_unat word_le_nat_alt confirm_limit_def)

lemma step_suspect_clean:
  assumes "state c = STATE_SUSPECT" "Suc (unat (recovery_streak c)) < recover_limit c"
  shows "state (update_ctx c FAULT_NONE) = STATE_SUSPECT"
    and "fault_streak (update_ctx c FAULT_NONE) = fault_streak c"
    and "unat (recovery_streak (update_ctx c FAULT_NONE)) = Suc (unat (recovery_streak c))"
  using assms limits_byte(2) [of c]
  by (auto simp: update_ctx_def Let_def u8_inc_unat word_le_nat_alt recover_limit_def)

lemma step_healthy_fault:
  assumes "state c = STATE_HEALTHY" "d \<noteq> FAULT_NONE"
  shows "state (update_ctx c d) = STATE_SUSPECT" "fault_streak (update_ctx c d) = 1"
    "recovery_streak (update_ctx c d) = recovery_streak c"
  using assms by (simp_all add: update_ctx_def)

section \<open>Isolation\<close>

text \<open>
  From \<open>HEALTHY\<close>, definitive faults in a row: the first makes the sensor suspect, the
  \<open>fault_confirm_limit\<close>-th condemns it, and no earlier one does.
\<close>

lemma updates_definitive_counted:
  assumes "state c = STATE_HEALTHY" "2 \<le> confirm_limit c" "list_all definitive ds" "ds \<noteq> []"
  shows "if length ds < confirm_limit c
         then state (updates c ds) = STATE_SUSPECT \<and> unat (fault_streak (updates c ds)) = length ds
         else state (updates c ds) = STATE_FAULTED"
  using assms(3,4)
proof (induction ds rule: rev_induct)
  case (snoc d ds)
  show ?case
  proof (cases "ds = []")
    case True
    then show ?thesis
      using snoc.prems assms(1,2) step_healthy_fault [of c d] by (simp add: definitive_def)
  next
    case False
    note ih = snoc.IH [OF _ False]
    let ?c = "updates c ds"
    show ?thesis
    proof (cases "length ds < confirm_limit c")
      case True
      then have s: "state ?c = STATE_SUSPECT" "unat (fault_streak ?c) = length ds"
        using ih snoc.prems by auto
      have "unat (fault_streak ?c) < 255" using s True limits_byte(1) [of c] by simp
      then show ?thesis
        using step_suspect_definitive [OF s(1), of d] snoc.prems s(2) True by auto
    next
      case False
      then have "state ?c = STATE_FAULTED" using ih snoc.prems by auto
      then show ?thesis using False by (simp add: update_ctx_def)
    qed
  qed
qed simp

text \<open>
  The other direction: a condemned sensor has shown at least \<open>fault_confirm_limit\<close> faults,
  and at least two, whatever the other detections were.
\<close>

definition fault_count :: "fault_type list \<Rightarrow> nat" where
  "fault_count ds = length (filter (\<lambda>d. d \<noteq> FAULT_NONE) ds)"

lemma u8_inc_le: "unat ((x :: u8) + 1) \<le> Suc (unat x)"
  by (simp add: unat_word_ariths)

lemma updates_count_bound:
  assumes "state c = STATE_HEALTHY" "fault_streak c = 0"
  shows "unat (fault_streak (updates c ds)) \<le> fault_count ds
    \<and> (case state (updates c ds) of
         STATE_HEALTHY \<Rightarrow> True
       | STATE_SUSPECT \<Rightarrow> 1 \<le> fault_count ds
       | STATE_FAULTED \<Rightarrow> 2 \<le> fault_count ds \<and> confirm_limit c \<le> unat (fault_streak (updates c ds))
       | _ \<Rightarrow> False)"
proof (induction ds rule: rev_induct)
  case Nil
  then show ?case using assms by simp
next
  case (snoc d ds)
  let ?c = "updates c ds"
  have lim: "confirm_limit c = unat (fault_confirm_limit (cfg ?c))" by (simp add: confirm_limit_def)
  show ?case
    using snoc u8_inc_le [of "fault_streak ?c"]
    by (cases "state ?c")
      (auto simp: fault_count_def update_ctx_def Let_def lim word_le_nat_alt)
qed

text \<open>A disagreement alone never condemns a sensor.\<close>

lemma updates_contradictory:
  assumes "state c \<in> {STATE_HEALTHY, STATE_SUSPECT}" "set ds \<subseteq> {FAULT_NONE, FAULT_CONTRADICTORY}"
  shows "state (updates c ds) \<in> {STATE_HEALTHY, STATE_SUSPECT}"
  using assms(2)
proof (induction ds rule: rev_induct)
  case Nil
  then show ?case using assms(1) by simp
next
  case (snoc d ds)
  then show ?case by (auto simp: update_ctx_def Let_def split: if_splits)
qed

text \<open>
  Clean detections between the faults do not reset the fault count: as long as no gap reaches
  \<open>recovery_confirm_limit\<close>, the sensor is condemned by its \<open>fault_confirm_limit\<close>-th fault.
\<close>

lemma updates_clean_gap:
  "state c = STATE_SUSPECT \<Longrightarrow> unat (recovery_streak c) + m < recover_limit c
   \<Longrightarrow> state (updates c (replicate m FAULT_NONE)) = STATE_SUSPECT
     \<and> fault_streak (updates c (replicate m FAULT_NONE)) = fault_streak c"
proof (induction m arbitrary: c)
  case (Suc m)
  have s: "state (update_ctx c FAULT_NONE) = STATE_SUSPECT"
      "fault_streak (update_ctx c FAULT_NONE) = fault_streak c"
      "unat (recovery_streak (update_ctx c FAULT_NONE)) = Suc (unat (recovery_streak c))"
    using step_suspect_clean [of c] Suc.prems by auto
  then show ?case using Suc.IH [OF s(1)] Suc.prems(2) by simp
qed simp

definition spaced_faults :: "fault_type \<Rightarrow> nat list \<Rightarrow> fault_type list" where
  "spaced_faults d gaps = concat (map (\<lambda>m. replicate m FAULT_NONE @ [d]) gaps)"

lemma updates_spaced:
  assumes "definitive d"
  shows "state c = STATE_SUSPECT \<Longrightarrow> recovery_streak c = 0
    \<Longrightarrow> \<forall>m \<in> set gaps. m < recover_limit c
    \<Longrightarrow> unat (fault_streak c) + length gaps = confirm_limit c \<Longrightarrow> gaps \<noteq> []
    \<Longrightarrow> state (updates c (spaced_faults d gaps)) = STATE_FAULTED"
proof (induction gaps arbitrary: c)
  case (Cons m gaps)
  let ?g = "updates c (replicate m FAULT_NONE)"
  have g: "state ?g = STATE_SUSPECT" "fault_streak ?g = fault_streak c"
    using updates_clean_gap [of c m] Cons.prems by auto
  have "unat (fault_streak ?g) < 255"
    using g(2) Cons.prems(4) limits_byte(1) [of c] by simp
  note st = step_suspect_definitive [OF g(1) assms this]
  show ?case
  proof (cases "gaps = []")
    case True
    then show ?thesis using st(3) g(2) Cons.prems(4) by (simp add: spaced_faults_def)
  next
    case False
    then have "\<not> confirm_limit c \<le> Suc (unat (fault_streak c))"
      using Cons.prems(4) by (cases gaps) auto
    then have "state (updates (update_ctx ?g d) (spaced_faults d gaps)) = STATE_FAULTED"
      using st g(2) Cons.prems False by (intro Cons.IH) auto
    then show ?thesis by (simp add: spaced_faults_def)
  qed
qed simp

section \<open>Recovery\<close>

lemma probe_excluded [simp]: "state c = STATE_EXCLUDED \<Longrightarrow> state (probe_ctx c d) = STATE_EXCLUDED"
  by (simp add: probe_ctx_def)

lemma probes_clean_counted:
  assumes "state c = STATE_PROBING"
  shows "0 < n \<Longrightarrow> n < max 2 (recover_limit c)
    \<Longrightarrow> state (probes c (replicate n FAULT_NONE)) = STATE_VALIDATING
      \<and> unat (validation_streak (probes c (replicate n FAULT_NONE))) = n"
proof (induction n)
  case (Suc n)
  show ?case
  proof (cases "n = 0")
    case True
    then show ?thesis using assms by (simp add: probe_ctx_def)
  next
    case False
    let ?c = "probes c (replicate n FAULT_NONE)"
    have s: "state ?c = STATE_VALIDATING" "unat (validation_streak ?c) = n"
      using Suc False by auto
    have n: "Suc n < recover_limit c" using False Suc.prems(2) by (simp add: max_def split: if_splits)
    then have "n < 255" using limits_byte(2) [of c] by simp
    then have inc: "unat (validation_streak ?c + 1) = Suc n" using s(2) by (simp add: u8_inc_unat)
    have "probes c (replicate (Suc n) FAULT_NONE) = probe_ctx ?c FAULT_NONE"
      by (metis probes_simps(1,2,3) replicate_append_same replicate_Suc)
    then show ?thesis
      using s(1) inc n by (simp add: probe_ctx_def Let_def word_le_nat_alt recover_limit_def)
  qed
qed simp

lemma probes_reintegrated:
  assumes "state c = STATE_PROBING" "n = max 2 (recover_limit c)"
  shows "state (probes c (replicate n FAULT_NONE)) = STATE_HEALTHY
    \<and> fault_streak (probes c (replicate n FAULT_NONE)) = 0
    \<and> recovery_streak (probes c (replicate n FAULT_NONE)) = 0"
proof -
  define m where "m = n - 1"
  have m: "n = Suc m" "0 < m" "m < max 2 (recover_limit c)" using assms(2) by (auto simp: m_def)
  let ?c = "probes c (replicate m FAULT_NONE)"
  have s: "state ?c = STATE_VALIDATING" "unat (validation_streak ?c) = m"
    using probes_clean_counted [OF assms(1) m(2,3)] by auto
  have "m < 255" using m assms(2) limits_byte(2) [of c] by (simp add: max_def split: if_splits)
  then have "unat (validation_streak ?c + 1) = n" using s(2) m by (simp add: u8_inc_unat)
  then have "recovery_confirm_limit (cfg c) \<le> validation_streak ?c + 1"
    using assms(2) by (simp add: word_le_nat_alt recover_limit_def)
  moreover have "probes c (replicate n FAULT_NONE) = probe_ctx ?c FAULT_NONE"
    unfolding m(1) by (metis probes_simps(1,2,3) replicate_append_same replicate_Suc)
  ultimately show ?thesis using s(1) by (simp add: probe_ctx_def Let_def)
qed

lemma probes_failed:
  assumes "state c = STATE_PROBING" "n < max 2 (recover_limit c)" "d \<noteq> FAULT_NONE"
  shows "state (probes c (replicate n FAULT_NONE @ [d])) = STATE_EXCLUDED"
proof (cases "n = 0")
  case True
  then show ?thesis using assms by (simp add: probe_ctx_def)
next
  case False
  then have "state (probes c (replicate n FAULT_NONE)) = STATE_VALIDATING"
    using probes_clean_counted [OF assms(1)] assms(2) by blast
  then show ?thesis using assms(3) by (simp add: probe_ctx_def)
qed

end
