(* ===== verification/Fault_Checks.thy ===== *)
theory Fault_Checks
  imports Fault_Detector
begin

text \<open>
  What the four checks of \<open>src/fault_detector.c\<close> decide, over the abstract history of the
  buffer: closed descriptions of the delay, stuck and noise checks, the symmetry of the
  disagreement check, and the classification they give together.
\<close>

section \<open>The window\<close>

lemma read_window_eq:
  assumes "buffer_inv b"
  shows "read_window (Some b) = ring_of b"
proof -
  have "length (ring_of b) \<le> unat (10 :: u8)"
    using buffer_invD(3) [OF assms] by (simp add: ring_of_def)
  then show ?thesis
    using read_history_eq [OF assms, of 10]
    by (simp add: read_window_def SENSOR_BUFFER_LEN_def keep_last_all)
qed

lemma read_window_None [simp]: "read_window None = []"
  by (simp add: read_window_def sensor_buffer_read_history_def)

lemma window_full_iff:
  "buffer_inv b \<Longrightarrow> (int (length (ring_of b)) < SENSOR_BUFFER_LEN) = (length (history b) < 10)"
  by (simp add: SENSOR_BUFFER_LEN_def history_def)

section \<open>Delay\<close>

definition timeout :: "fdi_context \<Rightarrow> nat" where
  "timeout c = unat (delay_timeout_us (cfg c))"

lemma unat_ucast_u32: "unat (ucast (x :: u32) :: u64) = unat x"
proof -
  have "unat x < 2 ^ 64" using unsigned_less [of x, where 'a = nat] by simp
  then show ?thesis by (simp add: unsigned_ucast_eq take_bit_nat_eq_self)
qed

lemma check_delayed_iff:
  assumes "buffer_inv b"
  shows "check_delayed c (Some b) now
     = (case latest_entry b of None \<Rightarrow> True | Some (t, _) \<Rightarrow> unat t + timeout c < unat now)"
proof (cases "ring_of b = []")
  case True
  then show ?thesis
    using assms by (simp add: check_delayed_def stale_def latest_entry_def get_latest_eq sensor_buffer_count_def
        ring_of_empty_iff)
next
  case False
  define t where "t = timestamp_us (last (ring_of b))"
  have "check_delayed c (Some b) now
      = (if now < t then False else now - t > ucast (delay_timeout_us (cfg c)))"
    using False assms by (simp add: check_delayed_def stale_def sensor_buffer_count_def last_timestamp_eq
        ring_of_empty_iff t_def Let_def)
  also have "\<dots> = (unat t + timeout c < unat now)"
    by (auto simp: word_less_nat_alt unat_sub word_le_nat_alt not_less unat_ucast_u32 timeout_def)
  also have "\<dots> = (case latest_entry b of None \<Rightarrow> True | Some (t, _) \<Rightarrow> unat t + timeout c < unat now)"
    using False assms by (simp add: latest_entry_def get_latest_eq reading_of_def t_def)
  finally show ?thesis .
qed

text \<open>A sample just written keeps the sensor fresh until the timeout has passed.\<close>

lemma fresh_not_delayed:
  assumes "buffer_inv b" "write_args_ok vs vc" "unat now \<le> unat ts + timeout c"
  shows "\<not> check_delayed c (Some (write_into (ts, vs, vc) b)) now"
proof -
  have "latest_entry (write_into (ts, vs, vc) b) = Some (ts, take (unat vc) vs)"
    using buf.newest_put [OF assms(1), of "(ts, vs, vc)"] assms(2) by simp
  moreover have "buffer_inv (write_into (ts, vs, vc) b)"
    using buf.inv_put [OF assms(1), of "(ts, vs, vc)"] assms(2) by simp
  ultimately show ?thesis using assms(3) by (simp add: check_delayed_iff)
qed

section \<open>Spread and jumps of a component\<close>

text \<open>
  The running minimum and maximum of a list of finite values are its least and greatest
  element, and the spread exceeds a threshold exactly when some pair of values does: float
  subtraction is monotone in both operands.
\<close>

lemma min_max_units:
  "min_max (FFin a) (FFin b) (map FFin ns) = (FFin (fold min ns a), FFin (fold max ns b))"
  by (induction ns arbitrary: a b) (auto simp: min_def max_def)

lemma spread_units:
  "ns \<noteq> [] \<Longrightarrow> spread (map FFin ns) = f32_sub (FFin (Max (set ns))) (FFin (Min (set ns)))"
  by (cases ns) (simp_all add: spread_def min_max_units flip: Max.set_eq_fold Min.set_eq_fold)

lemma spread_exceeds_iff:
  assumes "ns \<noteq> []"
  shows "f32_gt (spread (map FFin ns)) t
    = (\<exists>x \<in> set ns. \<exists>y \<in> set ns. f32_gt (f32_sub (FFin x) (FFin y)) t)"
proof
  assume "f32_gt (spread (map FFin ns)) t"
  then have "f32_gt (f32_sub (FFin (Max (set ns))) (FFin (Min (set ns)))) t"
    by (simp add: spread_units [OF assms])
  moreover have "Max (set ns) \<in> set ns" "Min (set ns) \<in> set ns" using assms by simp_all
  ultimately show "\<exists>x \<in> set ns. \<exists>y \<in> set ns. f32_gt (f32_sub (FFin x) (FFin y)) t"
    by blast
next
  assume "\<exists>x \<in> set ns. \<exists>y \<in> set ns. f32_gt (f32_sub (FFin x) (FFin y)) t"
  then obtain x y where xy: "x \<in> set ns" "y \<in> set ns" "f32_lt t (f32_sub (FFin x) (FFin y))" by blast
  have "f32_le (f32_sub (FFin x) (FFin y)) (f32_sub (FFin (Max (set ns))) (FFin (Min (set ns))))"
    using xy by (intro f32_sub_mono) auto
  with xy(3) show "f32_gt (spread (map FFin ns)) t"
    using assms by (auto simp: spread_units intro: f32_lt_le_trans)
qed

lemma round_signed_neg: "0 < q \<Longrightarrow> round_signed (- p) q = - round_signed p q"
  by (auto simp: round_signed_def)

lemma f32_round_neg: "0 < q \<Longrightarrow> f32_round (- p) q = f32_neg (f32_round p q)"
  by (auto simp: f32_round_def f32_of_units_def round_signed_neg f32_max_units_def)

lemma f32_sub_swap: "f32_sub y x = f32_neg (f32_sub x y)"
proof (cases "\<exists>a b. x = FFin a \<and> y = FFin b")
  case True
  then obtain a b where "x = FFin a" "y = FFin b" by blast
  then show ?thesis using f32_round_neg [of 1 "a - b"] by (simp add: f32_sub_def)
next
  case False
  then show ?thesis by (cases x; cases y) (simp_all add: f32_sub_def)
qed

lemma f32_mul_neg_neg: "f32_mul (f32_neg d) (f32_neg d) = f32_mul d d"
  by (cases d) simp_all

lemma f32_neg_neg [simp]: "f32_neg (f32_neg x) = x"
  by (cases x) simp_all

lemma jump_abs: "jump v w = f32_abs (f32_sub v w)"
  by (cases "f32_sub v w") (auto simp: jump_def Let_def)

lemma jump_sym: "jump v w = jump w v"
proof -
  have "f32_abs (f32_neg d) = f32_abs d" for d by (cases d) simp_all
  then show ?thesis by (simp add: jump_abs f32_sub_swap [of v w])
qed

text \<open>A jump is no larger than the spread of a set of values that holds both ends.\<close>

lemma jump_le_spread:
  assumes "x \<in> set ns" "y \<in> set ns"
  shows "f32_le (jump (FFin x) (FFin y)) (spread (map FFin ns))"
proof -
  have ne: "ns \<noteq> []" using assms by auto
  have le: "f32_le (f32_sub (FFin x) (FFin y)) (spread (map FFin ns))"
    if "x \<in> set ns" "y \<in> set ns" for x y
    unfolding spread_units [OF ne] using that by (intro f32_sub_mono) auto
  have "jump (FFin x) (FFin y) \<in> {f32_sub (FFin x) (FFin y), f32_sub (FFin y) (FFin x)}"
    by (auto simp: jump_def Let_def f32_sub_swap [of "FFin y"])
  then show ?thesis using le assms by auto
qed

section \<open>Stuck and noisy\<close>

fun finite_f32 :: "f32 \<Rightarrow> bool" where
  "finite_f32 (FFin n) = True"
| "finite_f32 _ = False"

lemma finite_f32_iff: "finite_f32 v = (\<exists>n. v = FFin n)"
  by (cases v) simp_all

definition finite_sample :: "sensor_sample \<Rightarrow> bool" where
  "finite_sample s = list_all finite_f32 (value s)"

text \<open>The reference descriptions: over pairs of samples of the window.\<close>

definition all_close :: "f32 \<Rightarrow> sensor_sample list \<Rightarrow> nat \<Rightarrow> bool" where
  "all_close t hist c = (\<forall>s \<in> set hist. \<forall>s' \<in> set hist. \<not> f32_gt (f32_sub (value s ! c) (value s' ! c)) t)"

definition some_jump :: "f32 \<Rightarrow> sensor_sample list \<Rightarrow> nat \<Rightarrow> bool" where
  "some_jump t hist c = (\<exists>i. Suc i < length hist \<and> f32_gt (jump (value (hist ! Suc i) ! c) (value (hist ! i) ! c)) t)"

definition units :: "f32 \<Rightarrow> int" where
  "units x = (case x of FFin n \<Rightarrow> n | _ \<Rightarrow> 0)"

lemma finite_component:
  assumes "list_all finite_sample hist" "list_all (\<lambda>s. c < length (value s)) hist" "s \<in> set hist"
  shows "value s ! c = FFin (units (value s ! c))"
proof -
  have "finite_sample s" "c < length (value s)" using assms by (auto simp: list_all_iff)
  then obtain n where "value s ! c = FFin n" by (auto simp: finite_sample_def list_all_length finite_f32_iff)
  then show ?thesis by (simp add: units_def)
qed

lemma column_units:
  assumes "list_all finite_sample hist" "list_all (\<lambda>s. c < length (value s)) hist"
  shows "column hist c = map FFin (map (\<lambda>s. units (value s ! c)) hist)"
  using finite_component [OF assms] by (simp add: column_def)

lemma spread_column_iff:
  assumes "list_all finite_sample hist" "list_all (\<lambda>s. c < length (value s)) hist" "hist \<noteq> []"
  shows "f32_gt (spread (column hist c)) t = (\<not> all_close t hist c)"
proof -
  let ?u = "\<lambda>s. units (value s ! c)"
  have v: "f32_sub (FFin (?u s)) (FFin (?u s')) = f32_sub (value s ! c) (value s' ! c)"
    if "s \<in> set hist" "s' \<in> set hist" for s s'
    using finite_component [OF assms(1,2)] that by simp
  have "f32_gt (spread (column hist c)) t
      = (\<exists>s \<in> set hist. \<exists>s' \<in> set hist. f32_gt (f32_sub (FFin (?u s)) (FFin (?u s'))) t)"
    unfolding column_units [OF assms(1,2)] using assms(3) by (subst spread_exceeds_iff) auto
  then show ?thesis unfolding all_close_def using v by auto
qed

definition window_ok :: "sensor_buffer \<Rightarrow> bool" where
  "window_ok b = (buffer_inv b \<and> length (history b) = 10 \<and> list_all finite_sample (ring_of b))"

definition components :: "sensor_buffer \<Rightarrow> nat" where
  "components b = unat (value_count (ring_of b ! 0))"

lemma window_okD:
  assumes "window_ok b"
  shows "buffer_inv b" "length (ring_of b) = 10" "ring_of b \<noteq> []" "list_all finite_sample (ring_of b)"
    and "c < components b \<Longrightarrow> list_all (\<lambda>s. c < length (value s)) (ring_of b)"
proof -
  show b: "buffer_inv b" and len: "length (ring_of b) = 10" and "list_all finite_sample (ring_of b)"
    using assms by (auto simp: window_ok_def history_def)
  then show ne: "ring_of b \<noteq> []" by auto
  assume c: "c < components b"
  have "ring_of b ! 0 \<in> set (ring_of b)" using len by simp
  then have "components b \<le> 6"
    using b by (auto simp: components_def buffer_inv_def list_all_iff)
  moreover have "set (ring_of b) \<subseteq> set (samples b)"
    using buffer_invD [OF b] by (auto simp: ring_of_def ring_slice_def)
  ultimately show "list_all (\<lambda>s. c < length (value s)) (ring_of b)"
    using b c by (fastforce simp: buffer_inv_def list_all_iff sample_ok_def)
qed

lemma check_stuck_short: "buffer_inv b \<Longrightarrow> length (history b) < 10 \<Longrightarrow> \<not> check_stuck c (Some b)"
  by (simp add: check_stuck_def read_window_eq window_full_iff Let_def)

lemma check_noisy_short: "buffer_inv b \<Longrightarrow> length (history b) < 10 \<Longrightarrow> \<not> check_noisy c (Some b)"
  by (simp add: check_noisy_def read_window_eq window_full_iff Let_def)

lemma check_stuck_iff:
  assumes "window_ok b"
  shows "check_stuck c (Some b)
    = (\<forall>k < components b. all_close (stuck_threshold (cfg c)) (ring_of b) k)"
proof -
  note w = window_okD [OF assms]
  have "check_stuck c (Some b) = list_all (\<lambda>k. \<not> f32_gt (spread (column (ring_of b) k)) (stuck_threshold (cfg c)))
      [0..<components b]"
    using w(1,2) by (simp add: check_stuck_def read_window_eq SENSOR_BUFFER_LEN_def components_def Let_def)
  also have "\<dots> = (\<forall>k < components b. all_close (stuck_threshold (cfg c)) (ring_of b) k)"
    using spread_column_iff [OF w(4) w(5) w(3)] by (auto simp: list_all_iff)
  finally show ?thesis .
qed

lemma check_noisy_iff:
  assumes "window_ok b"
  shows "check_noisy c (Some b)
    = (\<exists>k < components b. some_jump (noise_threshold (cfg c)) (ring_of b) k)"
proof -
  note w = window_okD [OF assms]
  have shift: "list_ex P [1..<n] = (\<exists>i. Suc i < n \<and> P (Suc i))" for P and n :: nat
    by (auto simp: list_ex_iff) (metis Suc_pred' less_eq_Suc_le One_nat_def)
  have "check_noisy c (Some b) = list_ex (\<lambda>k. list_ex (\<lambda>i.
      f32_gt (jump (value (ring_of b ! i) ! k) (value (ring_of b ! (i - 1)) ! k)) (noise_threshold (cfg c)))
      [1..<length (ring_of b)]) [0..<components b]"
    using w(1,2) by (simp add: check_noisy_def read_window_eq SENSOR_BUFFER_LEN_def components_def Let_def)
  also have "\<dots> = (\<exists>k < components b. some_jump (noise_threshold (cfg c)) (ring_of b) k)"
    unfolding shift some_jump_def by (auto simp: list_ex_iff)
  finally show ?thesis .
qed

text \<open>
  With a stuck threshold no larger than the noise threshold, a stuck sensor is never noisy: the
  order of the two checks does not matter.
\<close>

lemma stuck_not_noisy:
  assumes "window_ok b" "f32_le (stuck_threshold (cfg c)) (noise_threshold (cfg c))"
    and "check_stuck c (Some b)"
  shows "\<not> check_noisy c (Some b)"
proof
  note w = window_okD [OF assms(1)]
  assume "check_noisy c (Some b)"
  then obtain k i where k: "k < components b" and i: "Suc i < length (ring_of b)"
    and j: "f32_lt (noise_threshold (cfg c)) (jump (value (ring_of b ! Suc i) ! k) (value (ring_of b ! i) ! k))"
    by (auto simp: check_noisy_iff [OF assms(1)] some_jump_def)
  let ?ns = "map (\<lambda>s. units (value s ! k)) (ring_of b)"
  have v: "value s ! k = FFin (units (value s ! k))" if "s \<in> set (ring_of b)" for s
    using w(4) w(5) [OF k] that by (rule finite_component)
  have "f32_le (jump (FFin (units (value (ring_of b ! Suc i) ! k))) (FFin (units (value (ring_of b ! i) ! k))))
      (spread (map FFin ?ns))"
    using i by (intro jump_le_spread) auto
  then have "f32_lt (noise_threshold (cfg c)) (spread (column (ring_of b) k))"
    using j i v [of "ring_of b ! Suc i"] v [of "ring_of b ! i"]
    unfolding column_units [OF w(4) w(5) [OF k]] by (auto intro: f32_lt_le_trans)
  then have "f32_gt (spread (column (ring_of b) k)) (stuck_threshold (cfg c))"
    using assms(2) by (auto intro: f32_le_lt_trans)
  then show False
    using assms(3) k spread_column_iff [OF w(4) w(5) [OF k] w(3)] check_stuck_iff [OF assms(1)] by blast
qed

section \<open>Disagreement\<close>

lemma sum_squares_swap: "sum_squares acc ys xs = sum_squares acc xs ys"
proof (induction acc xs ys rule: sum_squares.induct)
  case (1 acc x xs y ys)
  then show ?case by (simp add: Let_def f32_sub_swap [of y x] f32_mul_neg_neg)
qed auto

text \<open>Both members of a pair see the same disagreement.\<close>

lemma check_contradictory_sym:
  assumes "contradiction_threshold (cfg c) = contradiction_threshold (cfg c')"
  shows "check_contradictory c (Some a) (Some b) = check_contradictory c' (Some b) (Some a)"
  using assms
  by (auto simp: check_contradictory_def samples_differ_def Let_def sum_squares_swap split: option.splits)

section \<open>Classification\<close>

lemma fdi_detect_Some:
  "fdi_detect (Some c) (Some b) r now
     = (if check_delayed c (Some b) now then FAULT_DELAYED
        else if check_stuck c (Some b) then FAULT_STUCK
        else if check_noisy c (Some b) then FAULT_NOISY
        else if check_contradictory c (Some b) r then FAULT_CONTRADICTORY
        else FAULT_NONE)"
  by (simp add: fdi_detect_def)

end
