(* ===== verification/Fusion.thy ===== *)
theory Fusion
  imports Sensor_Manager Fault_State Fault_Checks
begin

text \<open>
  \<open>src/fusion.c\<close>: the distance estimate and its degradation ladder. Float expressions are
  evaluated operation by operation in binary32, in the order C gives them.
\<close>

section \<open>Data\<close>

datatype op_mode = OP_FULL | OP_DEGRADED_SINGLE | OP_DEGRADED_HOLDOVER | OP_UNSAFE

record fusion_result =
  mode :: op_mode
  valid :: bool
  distance_cm :: f32
  uncertainty_cm :: f32
  safe_distance_cm :: f32
  contributors :: int
  age_us :: u64
  disagreement :: bool

record fusion_state =
  last_good_cm :: f32
  last_good_us :: u64
  velocity_mps :: f32
  last_integrate_us :: u64
  have_last_good :: bool

definition US_BASE_UNCERTAINTY_CM :: f32 where "US_BASE_UNCERTAINTY_CM = f32_lit 2 1"
definition SUSPECT_UNCERTAINTY_MULT :: f32 where "SUSPECT_UNCERTAINTY_MULT = f32_lit 3 1"
definition SINGLE_UNCERTAINTY_MULT :: f32 where "SINGLE_UNCERTAINTY_MULT = f32_lit 25 10"
definition STALE_SAMPLE_US :: u64 where "STALE_SAMPLE_US = 300000"
definition PAIR_DISAGREE_CM :: f32 where "PAIR_DISAGREE_CM = f32_lit 20 1"
definition HOLDOVER_MAX_US :: u64 where "HOLDOVER_MAX_US = 1500000"
definition HOLDOVER_GROWTH_CM_PER_S :: f32 where "HOLDOVER_GROWTH_CM_PER_S = f32_lit 25 1"
definition ACCEL_DEADBAND_G :: f32 where "ACCEL_DEADBAND_G = f32_lit 3 100"
definition G_TO_MPS2 :: f32 where "G_TO_MPS2 = f32_lit 980665 100000"
definition ZONE_SAFE_CM :: f32 where "ZONE_SAFE_CM = f32_lit 100 1"
definition ZONE_NORMAL_CM :: f32 where "ZONE_NORMAL_CM = f32_lit 60 1"
definition ZONE_CAUTION_CM :: f32 where "ZONE_CAUTION_CM = f32_lit 30 1"
definition ZONE_SLOW_CM :: f32 where "ZONE_SLOW_CM = f32_lit 15 1"

definition f32_1e6 :: f32 where "f32_1e6 = f32_lit 1000000 1"

section \<open>Contributors\<close>

definition state_is_usable :: "sensor_state \<Rightarrow> bool" where
  "state_is_usable s = (s = STATE_HEALTHY \<or> s = STATE_SUSPECT)"

record contrib =
  present :: bool
  cm :: f32
  sigma_cm :: f32
  c_age_us :: u64

definition zero_contrib :: contrib where
  "zero_contrib = \<lparr>present = False, cm = f32_0, sigma_cm = f32_0, c_age_us = 0\<rparr>"

definition sample_age :: "u64 \<Rightarrow> sensor_sample \<Rightarrow> u64" where
  "sample_age now s = (if now > timestamp_us s then now - timestamp_us s else 0)"

definition read_contributor :: "sensor_manager \<Rightarrow> fdi_context \<Rightarrow> u64 \<Rightarrow> contrib" where
  "read_contributor mgr ctx now =
     (if \<not> state_is_usable (state ctx) then zero_contrib
      else let buf = sensor_manager_get_buffer (Some mgr) (ctx_id ctx) in
        if buf = None then zero_contrib
        else case sensor_buffer_get_latest buf True of
          None \<Rightarrow> zero_contrib
        | Some s \<Rightarrow>
            let c = zero_contrib\<lparr>c_age_us := sample_age now s\<rparr> in
            if c_age_us c > STALE_SAMPLE_US then c
            else let c = c\<lparr>cm := value s ! 0, sigma_cm := US_BASE_UNCERTAINTY_CM\<rparr>;
                     c = (if state ctx = STATE_SUSPECT
                          then c\<lparr>sigma_cm := f32_mul (sigma_cm c) SUSPECT_UNCERTAINTY_MULT\<rparr> else c)
              in c\<lparr>present := True\<rparr>)"

text \<open>One candidate of the loop in \<open>read_long_accel\<close>; the loop returns the first that answers.\<close>

definition accel_candidate :: "sensor_manager \<Rightarrow> u64 \<Rightarrow> fdi_context \<Rightarrow> f32 option" where
  "accel_candidate mgr now ctx =
     (if \<not> state_is_usable (state ctx) then None
      else let buf = sensor_manager_get_buffer (Some mgr) (ctx_id ctx) in
        if buf = None then None
        else case sensor_buffer_get_latest buf True of
          None \<Rightarrow> None
        | Some s \<Rightarrow>
            if sample_age now s > STALE_SAMPLE_US then None
            else let g = value s ! 0;
                     g = (if f32_lt (f32_abs g) ACCEL_DEADBAND_G then f32_0 else g)
              in Some (f32_mul g G_TO_MPS2))"

fun first_some :: "('a \<Rightarrow> 'b option) \<Rightarrow> 'a list \<Rightarrow> 'b option" where
  "first_some f [] = None"
| "first_some f (x # xs) = (case f x of None \<Rightarrow> first_some f xs | Some y \<Rightarrow> Some y)"

definition read_long_accel :: "sensor_manager \<Rightarrow> fdi_context \<Rightarrow> fdi_context \<Rightarrow> u64 \<Rightarrow> f32 option" where
  "read_long_accel mgr c1 c2 now = first_some (accel_candidate mgr now) [c1, c2]"

section \<open>The estimate\<close>

definition zero_state :: fusion_state where
  "zero_state = \<lparr>last_good_cm = f32_0, last_good_us = 0, velocity_mps = f32_0,
     last_integrate_us = 0, have_last_good = False\<rparr>"

definition fusion_init :: "fusion_state \<Rightarrow> fusion_state" where
  "fusion_init fs = zero_state"

definition zero_result :: fusion_result where
  "zero_result = \<lparr>mode = OP_FULL, valid = False, distance_cm = f32_0, uncertainty_cm = f32_0,
     safe_distance_cm = f32_0, contributors = 0, age_us = 0, disagreement = False\<rparr>"

text \<open>Inverse-variance weights and the combination of an agreeing pair.\<close>

definition weight :: "contrib \<Rightarrow> f32" where
  "weight c = f32_div (f32_lit 1 1) (f32_mul (sigma_cm c) (sigma_cm c))"

definition weighted_mean :: "contrib \<Rightarrow> contrib \<Rightarrow> f32" where
  "weighted_mean a b =
     f32_div (f32_add (f32_mul (cm a) (weight a)) (f32_mul (cm b) (weight b)))
       (f32_add (weight a) (weight b))"

definition pair_uncertainty :: "contrib \<Rightarrow> contrib \<Rightarrow> f32 \<Rightarrow> f32" where
  "pair_uncertainty a b sp =
     f32_add (f32_sqrt (f32_div (f32_lit 1 1) (f32_add (weight a) (weight b))))
       (f32_mul sp (f32_lit 1 2))"

definition note_good :: "f32 \<Rightarrow> u64 \<Rightarrow> fusion_state \<Rightarrow> fusion_state" where
  "note_good d now fs =
     fs\<lparr>last_good_cm := d, last_good_us := now, have_last_good := True,
        velocity_mps := f32_0, last_integrate_us := now\<rparr>"

definition fuse_pair :: "contrib \<Rightarrow> contrib \<Rightarrow> fusion_result" where
  "fuse_pair a b =
     (let sp = f32_abs (f32_sub (cm a) (cm b));
          out = zero_result\<lparr>mode := OP_FULL, valid := True, contributors := 2,
                  age_us := (if c_age_us a < c_age_us b then c_age_us a else c_age_us b)\<rparr>
      in if f32_gt sp PAIR_DISAGREE_CM
         then out\<lparr>disagreement := True,
                  distance_cm := (if f32_lt (cm a) (cm b) then cm a else cm b),
                  uncertainty_cm := sp\<rparr>
         else out\<lparr>distance_cm := weighted_mean a b, uncertainty_cm := pair_uncertainty a b sp\<rparr>)"

definition fuse_single :: "contrib \<Rightarrow> fusion_result" where
  "fuse_single c =
     zero_result\<lparr>mode := OP_DEGRADED_SINGLE, valid := True, contributors := 1, age_us := c_age_us c,
       distance_cm := cm c, uncertainty_cm := f32_mul (sigma_cm c) SINGLE_UNCERTAINTY_MULT\<rparr>"

definition integration_step :: "u64 \<Rightarrow> u64 \<Rightarrow> f32" where
  "integration_step now prev =
     (let dt = f32_div (f32_of_int (uint (now - prev))) f32_1e6;
          dt = (if f32_lt dt f32_0 then f32_0 else dt)
      in if f32_gt dt (f32_lit 1 2) then f32_lit 1 2 else dt)"

definition holdover_uncertainty :: "u64 \<Rightarrow> f32" where
  "holdover_uncertainty held =
     f32_add US_BASE_UNCERTAINTY_CM
       (f32_mul HOLDOVER_GROWTH_CM_PER_S (f32_div (f32_of_int (uint held)) f32_1e6))"

text \<open>The third branch: no ultrasonic contributor.\<close>

definition fuse_holdover ::
  "fusion_state \<Rightarrow> f32 option \<Rightarrow> u64 \<Rightarrow> fusion_state \<times> fusion_result" where
  "fuse_holdover fs accel now =
     (if \<not> have_last_good fs then (fs, zero_result\<lparr>mode := OP_UNSAFE, valid := False\<rparr>)
      else let held = now - last_good_us fs in
        if held > HOLDOVER_MAX_US
        then (fs, zero_result\<lparr>mode := OP_UNSAFE, valid := False, age_us := held\<rparr>)
        else let dt = integration_step now (last_integrate_us fs);
                 fs = fs\<lparr>last_integrate_us := now\<rparr>;
                 fs = (case accel of None \<Rightarrow> fs
                       | Some a \<Rightarrow> fs\<lparr>velocity_mps := f32_add (velocity_mps fs) (f32_mul a dt)\<rparr>);
                 d = f32_sub (last_good_cm fs)
                       (f32_mul (f32_mul (f32_abs (velocity_mps fs)) dt) (f32_lit 100 1));
                 fs = fs\<lparr>last_good_cm := d\<rparr>;
                 d = (if f32_lt d f32_0 then f32_0 else d)
             in (fs, zero_result\<lparr>mode := OP_DEGRADED_HOLDOVER, valid := True, contributors := 0,
                       age_us := held, distance_cm := d, uncertainty_cm := holdover_uncertainty held\<rparr>))"

text \<open>The end of \<open>fusion_compute\<close>; the two \<open>OP_UNSAFE\<close> returns leave before it.\<close>

definition safe_edge :: "fusion_result \<Rightarrow> fusion_result" where
  "safe_edge out =
     (let s = f32_sub (distance_cm out) (uncertainty_cm out)
      in out\<lparr>safe_distance_cm := (if f32_lt s f32_0 then f32_0 else s)\<rparr>)"

text \<open>The estimate from what was read; it starts by clearing the result.\<close>

definition fusion_combine ::
  "fusion_state \<Rightarrow> contrib \<Rightarrow> contrib \<Rightarrow> f32 option \<Rightarrow> u64 \<Rightarrow> fusion_state \<times> fusion_result" where
  "fusion_combine fs a b accel now =
     (if present a \<and> present b then
        let out = fuse_pair a b in (note_good (distance_cm out) now fs, safe_edge out)
      else if present a \<or> present b then
        let out = fuse_single (if present a then a else b)
        in (note_good (distance_cm out) now fs, safe_edge out)
      else
        let (fs', out) = fuse_holdover fs accel now
        in (fs', if mode out = OP_UNSAFE then out else safe_edge out))"

definition fusion_compute ::
  "fusion_state \<Rightarrow> sensor_manager \<Rightarrow> fdi_context \<Rightarrow> fdi_context \<Rightarrow> fdi_context \<Rightarrow> fdi_context
   \<Rightarrow> u64 \<Rightarrow> fusion_state \<times> fusion_result" where
  "fusion_compute fs mgr x1 x2 x3 x4 now =
     (let a = read_contributor mgr x1 now; b = read_contributor mgr x2 now
      in fusion_combine fs a b (read_long_accel mgr x3 x4 now) now)"

section \<open>Names and zones\<close>

fun op_mode_name :: "op_mode \<Rightarrow> string" where
  "op_mode_name OP_FULL = ''FULL''"
| "op_mode_name OP_DEGRADED_SINGLE = ''DEGRADED/SINGLE''"
| "op_mode_name OP_DEGRADED_HOLDOVER = ''DEGRADED/HOLDOVER''"
| "op_mode_name OP_UNSAFE = ''UNSAFE''"

definition fusion_zone_name :: "fusion_result \<Rightarrow> string" where
  "fusion_zone_name r =
     (if \<not> valid r then ''CRITICAL/STOP''
      else if f32_gt (safe_distance_cm r) ZONE_SAFE_CM then ''SAFE''
      else if f32_gt (safe_distance_cm r) ZONE_NORMAL_CM then ''NORMAL''
      else if f32_gt (safe_distance_cm r) ZONE_CAUTION_CM then ''CAUTION''
      else if f32_gt (safe_distance_cm r) ZONE_SLOW_CM then ''SLOW''
      else ''CRITICAL/STOP'')"

lemmas [c_ops] = fusion_combine_def fusion_compute_def

end
