(* ===== verification/Text_Output.thy ===== *)
theory Text_Output
  imports Float32
begin

text \<open>
  The conversions of C's \<open>printf\<close> the program uses: \<open>%d\<close> and \<open>%llu\<close>, and
  \<open>%.1f\<close>, \<open>%+1.3f\<close>, \<open>%+6.1f\<close> on a \<open>float\<close>, which prints the exact value rounded to the
  nearest decimal, ties to even. Readers for the two forms show that nothing else is lost.
\<close>

section \<open>Decimal numbers\<close>

fun digits :: "nat \<Rightarrow> string" where
  "digits n = (if n < 10 then [char_of (48 + n)] else digits (n div 10) @ [char_of (48 + n mod 10)])"

declare digits.simps [simp del]

definition show_int :: "int \<Rightarrow> string" where
  "show_int i = (if i < 0 then ''-'' @ digits (nat (- i)) else digits (nat i))"

definition is_digit :: "char \<Rightarrow> bool" where
  "is_digit c = (48 \<le> (of_char c :: nat) \<and> (of_char c :: nat) \<le> 57)"

definition digit_value :: "char \<Rightarrow> nat" where
  "digit_value c = of_char c - 48"

definition read_nat :: "string \<Rightarrow> nat" where
  "read_nat s = foldl (\<lambda>a c. 10 * a + digit_value c) 0 s"

lemma digit_char: "n < 10 \<Longrightarrow> is_digit (char_of (48 + n)) \<and> digit_value (char_of (48 + n)) = n"
  by (simp add: is_digit_def digit_value_def)

lemma digits_all: "list_all is_digit (digits n)"
proof (induction n rule: digits.induct)
  case (1 n)
  then show ?case using digit_char [of n] digit_char [of "n mod 10"] by (subst digits.simps) simp
qed

lemma digits_not_Nil [simp]: "digits n \<noteq> []"
  by (subst digits.simps) simp

lemma read_digits [simp]: "read_nat (digits n) = n"
proof (induction n rule: digits.induct)
  case (1 n)
  then show ?case
    using digit_char [of n] digit_char [of "n mod 10"]
    by (subst digits.simps) (simp add: read_nat_def)
qed

lemma read_zeros [simp]: "read_nat (replicate k (CHR ''0'') @ s) = read_nat s"
  by (induction k) (simp_all add: read_nat_def digit_value_def)

text \<open>A number is the longest prefix of digits.\<close>

lemma digits_prefix:
  assumes "list_all is_digit s" "r = [] \<or> \<not> is_digit (hd r)"
  shows "takeWhile is_digit (s @ r) = s" "dropWhile is_digit (s @ r) = r"
  using assms by (induction s) (cases r; simp)+

lemma digits_split:
  assumes "digits m @ r = digits n @ s" "r = [] \<or> \<not> is_digit (hd r)" "s = [] \<or> \<not> is_digit (hd s)"
  shows "m = n \<and> r = s"
  using digits_prefix [OF digits_all [of m] assms(2)] digits_prefix [OF digits_all [of n] assms(3)]
    assms(1) read_digits by metis

section \<open>Fixed-point output of a float\<close>

definition pad_left :: "nat \<Rightarrow> char \<Rightarrow> string \<Rightarrow> string" where
  "pad_left w c s = replicate (w - length s) c @ s"

text \<open>The decimal with \<open>p\<close> places whose value is \<open>m / 10^p\<close>.\<close>

definition decimal :: "nat \<Rightarrow> nat \<Rightarrow> string" where
  "decimal p m = digits (m div 10 ^ p) @ ''.'' @ pad_left p (CHR ''0'') (digits (m mod 10 ^ p))"

definition sign_text :: "bool \<Rightarrow> bool \<Rightarrow> string" where
  "sign_text force neg = (if neg then ''-'' else if force then ''+'' else '''')"

fun float_body :: "bool \<Rightarrow> nat \<Rightarrow> f32 \<Rightarrow> string" where
  "float_body force p FNaN = sign_text force False @ ''nan''"
| "float_body force p (FInf neg) = sign_text force neg @ ''inf''"
| "float_body force p (FFin n) =
     sign_text force (n < 0) @ decimal p (nat (rne (\<bar>n\<bar> * 10 ^ p) f32_one_units))"

definition show_float :: "bool \<Rightarrow> nat \<Rightarrow> nat \<Rightarrow> f32 \<Rightarrow> string" where
  "show_float force w p x = pad_left w (CHR '' '') (float_body force p x)"

section \<open>Reading it back\<close>

text \<open>The value of a printed float in units of \<open>10^-p\<close>, for output without a width or a plus.\<close>

definition read_fixed :: "nat \<Rightarrow> string \<Rightarrow> int" where
  "read_fixed p s =
     (let neg = (hd s = CHR ''-''); t = (if neg then tl s else s);
          v = int (read_nat (takeWhile is_digit t) * 10 ^ p + read_nat (tl (dropWhile is_digit t)))
      in if neg then - v else v)"

lemma digit_not_sign: "is_digit c \<Longrightarrow> c \<noteq> CHR ''-'' \<and> c \<noteq> CHR ''.''"
  by (auto simp: is_digit_def)

lemma decimal_hd: "is_digit (hd (decimal p m))"
  using digits_all [of "m div 10 ^ p"] by (cases "digits (m div 10 ^ p)") (auto simp: decimal_def)

lemma read_decimal:
  "read_nat (takeWhile is_digit (decimal p m)) * 10 ^ p + read_nat (tl (dropWhile is_digit (decimal p m))) = m"
proof -
  have "\<not> is_digit (CHR ''.'')" by (simp add: is_digit_def)
  then have "takeWhile is_digit (decimal p m) = digits (m div 10 ^ p)"
      "dropWhile is_digit (decimal p m) = ''.'' @ pad_left p (CHR ''0'') (digits (m mod 10 ^ p))"
    unfolding decimal_def by (simp_all add: digits_prefix digits_all)
  then show ?thesis by (simp add: pad_left_def) (metis div_mult_mod_eq)
qed

lemma read_show_float:
  "read_fixed p (show_float False 0 p (FFin n))
     = (if n < 0 then -1 else 1) * rne (\<bar>n\<bar> * 10 ^ p) f32_one_units"
proof -
  define m where "m = rne (\<bar>n\<bar> * 10 ^ p) f32_one_units"
  have "0 \<le> m"
    using rne_mono [of f32_one_units f32_one_units 0 "\<bar>n\<bar> * 10 ^ p"] rne_exact [of f32_one_units 0]
    by (simp add: m_def)
  moreover have "hd (decimal p k) \<noteq> CHR ''-''" for k using digit_not_sign [OF decimal_hd] by blast
  ultimately show ?thesis
    using read_decimal [of p "nat m"] unfolding m_def [symmetric]
    by (auto simp: read_fixed_def show_float_def pad_left_def sign_text_def Let_def simp flip: m_def of_nat_add)
qed

text \<open>What is printed is the value to within half a unit of the last place.\<close>

lemma show_float_error:
  assumes "v = read_fixed p (show_float False 0 p (FFin n))"
  shows "\<bar>2 * v * f32_one_units - 2 * n * 10 ^ p\<bar> \<le> f32_one_units"
proof -
  have "\<bar>2 * rne (\<bar>n\<bar> * 10 ^ p) f32_one_units * f32_one_units - 2 * \<bar>n\<bar> * 10 ^ p\<bar> \<le> f32_one_units"
    using rne_bounds [of f32_one_units "\<bar>n\<bar> * 10 ^ p"] by (simp add: abs_le_iff algebra_simps)
  then show ?thesis unfolding assms read_show_float by (auto simp: abs_le_iff algebra_simps split: if_splits)
qed

end
