(* ===== verification/Fault_Steps.thy ===== *)
theory Fault_Steps
  imports Fault_State Fault_Checks
begin

text \<open>
  The detection of \<open>src/fault_detector.c\<close> as it meets another thread: each of its reads of a buffer
  takes the buffer's lock and finds what is there at that moment, and the sensor thread may write
  between two of them. Without such a write the steps compute \<open>fdi_detect\<close>.
\<close>

section \<open>One access at a time\<close>

text \<open>
  Where a detection is: before the read of the count, of the newest time, of the two histories, of
  the newest sample and of the twin's; or done.
\<close>

datatype detect_point = D_count | D_last | D_stuck | D_noisy | D_self | D_twin sensor_sample | D_done fault_type

fun decided :: "detect_point \<Rightarrow> bool" where
  "decided (D_done d) = True"
| "decided _ = False"

definition detect_start :: "sensor_buffer option \<Rightarrow> detect_point" where
  "detect_start self_buf = (if self_buf = None then D_done FAULT_NONE else D_count)"

fun detect_step ::
  "fdi_context \<Rightarrow> sensor_buffer option \<Rightarrow> sensor_buffer option \<Rightarrow> u64 \<Rightarrow> detect_point \<Rightarrow> detect_point" where
  "detect_step c self_buf redundant_buf now D_count =
     (if sensor_buffer_count self_buf = 0 then D_done FAULT_DELAYED else D_last)"
| "detect_step c self_buf redundant_buf now D_last =
     (if stale c (sensor_buffer_last_timestamp self_buf) now then D_done FAULT_DELAYED else D_stuck)"
| "detect_step c self_buf redundant_buf now D_stuck =
     (if check_stuck c self_buf then D_done FAULT_STUCK else D_noisy)"
| "detect_step c self_buf redundant_buf now D_noisy =
     (if check_noisy c self_buf then D_done FAULT_NOISY
      else if redundant_buf = None then D_done FAULT_NONE else D_self)"
| "detect_step c self_buf redundant_buf now D_self =
     (case sensor_buffer_get_latest self_buf True of None \<Rightarrow> D_done FAULT_NONE | Some a \<Rightarrow> D_twin a)"
| "detect_step c self_buf redundant_buf now (D_twin a) =
     (case sensor_buffer_get_latest redundant_buf True of None \<Rightarrow> D_done FAULT_NONE
      | Some b \<Rightarrow> D_done (if samples_differ c a b then FAULT_CONTRADICTORY else FAULT_NONE))"
| "detect_step c self_buf redundant_buf now (D_done d) = D_done d"

text \<open>The accesses that may still follow.\<close>

fun detect_work :: "detect_point \<Rightarrow> nat" where
  "detect_work D_count = 6"
| "detect_work D_last = 5"
| "detect_work D_stuck = 4"
| "detect_work D_noisy = 3"
| "detect_work D_self = 2"
| "detect_work (D_twin a) = 1"
| "detect_work (D_done d) = 0"

lemma detect_work_less: "detect_work p < 7"
  by (cases p) simp_all

lemma decided_iff: "decided p = (\<exists>d. p = D_done d)" "decided p = (detect_work p = 0)"
  by (cases p; simp)+

lemma detect_step_work: "\<not> decided p \<Longrightarrow> detect_work (detect_step c s r now p) < detect_work p"
  by (cases p) (simp_all split: option.split)

section \<open>Undisturbed\<close>

lemma step_done [simp]: "(detect_step c s r now ^^ n) (D_done d) = D_done d"
  by (induction n) simp_all

lemma detect_unfold: "(detect_step c s r now ^^ Suc n) p = (detect_step c s r now ^^ n) (detect_step c s r now p)"
  by (simp add: funpow_swap1)

text \<open>With the buffers at rest, at most six accesses give the verdict of \<open>fdi_detect\<close>.\<close>

lemma detect_steps: "(detect_step c s r now ^^ 6) (detect_start s) = D_done (fdi_detect (Some c) s r now)"
  by (simp add: detect_unfold numeral_eq_Suc detect_start_def fdi_detect_def check_delayed_def check_contradictory_def
      del: funpow.simps split: option.split)

text \<open>
  What a step that decides has found, in the buffers it was given: the check that the verdict names
  holds there; a contradiction compares with a sample found before.
\<close>

lemma detect_step_delayed:
  "detect_step c s r now p = D_done FAULT_DELAYED \<Longrightarrow> \<not> decided p \<Longrightarrow> check_delayed c s now"
  by (cases p) (auto simp: check_delayed_def split: if_splits option.splits)

lemma detect_step_stuck: "detect_step c s r now p = D_done FAULT_STUCK \<Longrightarrow> \<not> decided p \<Longrightarrow> check_stuck c s"
  by (cases p) (auto split: if_splits option.splits)

lemma detect_step_noisy: "detect_step c s r now p = D_done FAULT_NOISY \<Longrightarrow> \<not> decided p \<Longrightarrow> check_noisy c s"
  by (cases p) (auto split: if_splits option.splits)

lemma detect_step_contradictory:
  assumes "detect_step c s r now p = D_done FAULT_CONTRADICTORY" "\<not> decided p"
  obtains a b where "p = D_twin a" "sensor_buffer_get_latest r True = Some b" "samples_differ c a b"
  using assms by (cases p) (auto split: if_splits option.splits)

lemma detect_step_twin:
  "detect_step c s r now p = D_twin a \<Longrightarrow> sensor_buffer_get_latest s True = Some a"
  by (cases p) (auto split: if_splits option.splits)

end
