(* ===== verification/Fdi_Threads.thy ===== *)
theory Fdi_Threads
  imports Fusion Text_Output Fault_Steps
begin

text \<open>
  The thread bodies of \<open>src/main.c\<close>, each as the handler of one message: the fault detector's
  evaluation of a sensor, the recovery task with its timeout bookkeeping, and the logger. The
  globals they share are one record. A connection that could not be attached (\<open>coid == -1\<close>) is
  the boolean argument \<open>logger_up\<close>, and a field of \<open>links\<close> for the threads as a whole.
\<close>

section \<open>Messages and globals\<close>

record fault_event =
  ev_id :: sensor_id
  ev_state :: sensor_state
  ev_fault :: fault_type
  ev_timestamp :: u64
  synthetic_reason :: int
  probe_attempts :: int

record recovery_sup =
  probe_started_us :: u64
  next_probe_us :: u64
  attempts :: int
  permanent_fail :: bool

text \<open>A channel and the connection of its owner; \<open>-1\<close> is "not created".\<close>

record qnx_queue =
  q_chid :: int
  q_coid :: int

record globals =
  g_mgr :: sensor_manager
  g_us1_ctx :: fdi_context
  g_us2_ctx :: fdi_context
  g_imu1_ctx :: fdi_context
  g_imu2_ctx :: fdi_context
  g_fusion :: fusion_state
  g_sup :: "recovery_sup list"
  g_q_fusion_to_fdi :: qnx_queue
  g_q_fdi_to_recovery :: qnx_queue
  g_q_fdi_to_logger :: qnx_queue

definition RECOVERY_TIMEOUT_US :: u64 where "RECOVERY_TIMEOUT_US = 2000000"
definition RECOVERY_MAX_ATTEMPTS :: int where "RECOVERY_MAX_ATTEMPTS = 5"
definition RECOVERY_BACKOFF_BASE_US :: u64 where "RECOVERY_BACKOFF_BASE_US = 1000000"
definition RECOVERY_BACKOFF_MAX_US :: u64 where "RECOVERY_BACKOFF_MAX_US = 30000000"

fun state_name :: "sensor_state \<Rightarrow> string" where
  "state_name STATE_HEALTHY = ''HEALTHY''"
| "state_name STATE_SUSPECT = ''SUSPECT''"
| "state_name STATE_FAULTED = ''FAULTED''"
| "state_name STATE_EXCLUDED = ''EXCLUDED''"
| "state_name STATE_PROBING = ''PROBING''"
| "state_name STATE_VALIDATING = ''VALIDATING''"

fun fault_name :: "fault_type \<Rightarrow> string" where
  "fault_name FAULT_NONE = ''NONE''"
| "fault_name FAULT_DELAYED = ''DELAYED''"
| "fault_name FAULT_STUCK = ''STUCK''"
| "fault_name FAULT_NOISY = ''NOISY''"
| "fault_name FAULT_CONTRADICTORY = ''CONTRADICTORY''"

fun sensor_idx :: "sensor_id \<Rightarrow> nat" where
  "sensor_idx SENSOR_US1 = 0"
| "sensor_idx SENSOR_US2 = 1"
| "sensor_idx SENSOR_IMU1 = 2"
| "sensor_idx SENSOR_IMU2 = 3"
| "sensor_idx SENSOR_COUNT = 0"

fun ctx_for_id :: "globals \<Rightarrow> sensor_id \<Rightarrow> fdi_context option" where
  "ctx_for_id g SENSOR_US1 = Some (g_us1_ctx g)"
| "ctx_for_id g SENSOR_US2 = Some (g_us2_ctx g)"
| "ctx_for_id g SENSOR_IMU1 = Some (g_imu1_ctx g)"
| "ctx_for_id g SENSOR_IMU2 = Some (g_imu2_ctx g)"
| "ctx_for_id g SENSOR_COUNT = None"

text \<open>A write through the pointer \<open>ctx_for_id\<close> returns.\<close>

fun put_ctx :: "globals \<Rightarrow> sensor_id \<Rightarrow> fdi_context \<Rightarrow> globals" where
  "put_ctx g SENSOR_US1 c = g\<lparr>g_us1_ctx := c\<rparr>"
| "put_ctx g SENSOR_US2 c = g\<lparr>g_us2_ctx := c\<rparr>"
| "put_ctx g SENSOR_IMU1 c = g\<lparr>g_imu1_ctx := c\<rparr>"
| "put_ctx g SENSOR_IMU2 c = g\<lparr>g_imu2_ctx := c\<rparr>"
| "put_ctx g SENSOR_COUNT c = g"

definition buf_for_id :: "globals \<Rightarrow> sensor_id \<Rightarrow> sensor_buffer option" where
  "buf_for_id g sid = sensor_manager_get_buffer (Some (g_mgr g)) sid"

section \<open>Connections\<close>

text \<open>
  A sender's connection to a queue: what \<open>ConnectAttach\<close> returned for the channel, \<open>-1\<close> when
  it failed. Each thread connects once to each queue it sends to, so an answer per thread and
  channel is any behaviour of the kernel.
\<close>

datatype thread_name = Sensor_Thread | Fdi_Thread | Recovery_Thread | Logger_Thread

definition queue_connect :: "(thread_name \<Rightarrow> int \<Rightarrow> int) \<Rightarrow> thread_name \<Rightarrow> qnx_queue \<Rightarrow> int" where
  "queue_connect attach th q = attach th (q_chid q)"

definition PRIO_FAULT_DETECTOR :: int where "PRIO_FAULT_DETECTOR = 25"
definition PRIO_RECOVERY :: int where "PRIO_RECOVERY = 20"
definition PRIO_SENSOR_FUSION :: int where "PRIO_SENSOR_FUSION = 15"
definition PRIO_LOGGER :: int where "PRIO_LOGGER = 5"

text \<open>The priority a thread asks for, and the one it has then; a failure is not fatal.\<close>

fun wanted_priority :: "thread_name \<Rightarrow> int" where
  "wanted_priority Sensor_Thread = PRIO_SENSOR_FUSION"
| "wanted_priority Fdi_Thread = PRIO_FAULT_DETECTOR"
| "wanted_priority Recovery_Thread = PRIO_RECOVERY"
| "wanted_priority Logger_Thread = PRIO_LOGGER"

definition set_thread_priority :: "int \<Rightarrow> int \<Rightarrow> int option \<Rightarrow> int option" where
  "set_thread_priority rc prio old = (if rc \<noteq> 0 then old else Some prio)"

text \<open>
  The answers of the system to what the threads ask of it at their start: the connections, the log
  file, the creation of a thread and its priority; and whether a \<open>MsgSend\<close> may fail, when a signal
  interrupts it, say.
\<close>

record os_env =
  attach_rc :: "thread_name \<Rightarrow> int \<Rightarrow> int"
  fopen_ok :: bool
  create_rc :: "thread_name \<Rightarrow> int"
  sched_rc :: "thread_name \<Rightarrow> int"
  send_fails :: bool

text \<open>Which connections and threads there are then, and whether the log file opens.\<close>

record links =
  to_fdi :: bool
  fdi_to_recovery :: bool
  fdi_to_logger :: bool
  recovery_to_logger :: bool
  log_opens :: bool
  created :: "thread_name \<Rightarrow> bool"
  set_prio :: "thread_name \<Rightarrow> int option \<Rightarrow> int option"
  lossy :: bool

definition connect_threads :: "os_env \<Rightarrow> globals \<Rightarrow> links" where
  "connect_threads os g =
     \<lparr>to_fdi = queue_connect (attach_rc os) Sensor_Thread (g_q_fusion_to_fdi g) \<noteq> -1,
      fdi_to_recovery = queue_connect (attach_rc os) Fdi_Thread (g_q_fdi_to_recovery g) \<noteq> -1,
      fdi_to_logger = queue_connect (attach_rc os) Fdi_Thread (g_q_fdi_to_logger g) \<noteq> -1,
      recovery_to_logger = queue_connect (attach_rc os) Recovery_Thread (g_q_fdi_to_logger g) \<noteq> -1,
      log_opens = fopen_ok os,
      created = (\<lambda>t. create_rc os t = 0),
      set_prio = (\<lambda>t. set_thread_priority (sched_rc os t) (wanted_priority t)),
      lossy = send_fails os\<rparr>"

section \<open>Start-up configuration\<close>

definition us_cfg :: fdi_config where
  "us_cfg = \<lparr>delay_timeout_us = 500000, stuck_threshold = f32_lit 3 1,
     noise_threshold = f32_lit 30 1, contradiction_threshold = f32_lit 70 1,
     fault_confirm_limit = 3, recovery_confirm_limit = 3\<rparr>"

definition imu_cfg :: fdi_config where
  "imu_cfg = \<lparr>delay_timeout_us = 500000, stuck_threshold = f32_lit 1 100,
     noise_threshold = f32_lit 5 1, contradiction_threshold = f32_lit 5 1,
     fault_confirm_limit = 3, recovery_confirm_limit = 3\<rparr>"

definition zero_sup :: recovery_sup where
  "zero_sup = \<lparr>probe_started_us = 0, next_probe_us = 0, attempts = 0, permanent_fail = False\<rparr>"

text \<open>\<open>chid\<close> is what \<open>ChannelCreate\<close> returned.\<close>

definition queue_create :: "int \<Rightarrow> qnx_queue \<Rightarrow> int \<times> qnx_queue" where
  "queue_create ch q0 =
     (let q = q0\<lparr>q_chid := ch\<rparr> in if q_chid q = -1 then (-1, q) else (0, q\<lparr>q_coid := -1\<rparr>))"

text \<open>The three channels, in the order of the calls; a failure skips those after it.\<close>

definition create_queues :: "int \<Rightarrow> int \<Rightarrow> int \<Rightarrow> globals \<Rightarrow> int \<times> globals" where
  "create_queues ch1 ch2 ch3 g =
     (let (rc, q) = queue_create ch1 (g_q_fusion_to_fdi g); g = g\<lparr>g_q_fusion_to_fdi := q\<rparr> in
      if rc \<noteq> 0 then (1, g)
      else let (rc, q) = queue_create ch2 (g_q_fdi_to_recovery g); g = g\<lparr>g_q_fdi_to_recovery := q\<rparr> in
      if rc \<noteq> 0 then (1, g)
      else let (rc, q) = queue_create ch3 (g_q_fdi_to_logger g); g = g\<lparr>g_q_fdi_to_logger := q\<rparr> in
      if rc \<noteq> 0 then (1, g) else (0, g))"

definition init_contexts :: "globals \<Rightarrow> globals" where
  "init_contexts g =
     g\<lparr>g_us1_ctx := init_context (g_us1_ctx g) SENSOR_US1 us_cfg,
       g_us2_ctx := init_context (g_us2_ctx g) SENSOR_US2 us_cfg,
       g_imu1_ctx := init_context (g_imu1_ctx g) SENSOR_IMU1 imu_cfg,
       g_imu2_ctx := init_context (g_imu2_ctx g) SENSOR_IMU2 imu_cfg,
       g_fusion := fusion_init (g_fusion g),
       g_sup := replicate 4 zero_sup\<rparr>"

text \<open>
  \<open>main\<close> up to the creation of the threads, on the globals as the loader left them; the result
  is the exit code it would return, 0 when it goes on.
\<close>

definition main_init ::
  "mgr_env \<Rightarrow> int \<Rightarrow> int \<Rightarrow> int \<Rightarrow> globals \<Rightarrow> world \<Rightarrow> int \<times> globals \<times> world" where
  "main_init env ch1 ch2 ch3 g w =
     (let (rc, m, w) = sensor_manager_init env (Some (g_mgr g)) w;
          g = g\<lparr>g_mgr := (case m of None \<Rightarrow> g_mgr g | Some x \<Rightarrow> x)\<rparr> in
      if rc \<noteq> 0 then (1, g, w)
      else let (rc, g) = create_queues ch1 ch2 ch3 (init_contexts g) in (rc, g, w))"

section \<open>Fault detector\<close>

definition isolate_if_faulted :: "fdi_context \<Rightarrow> fdi_context" where
  "isolate_if_faulted ctx = (if state ctx = STATE_FAULTED then isolate_ctx ctx else ctx)"

text \<open>
  The switch on the state that was read before the detection, in two parts: the debounce, which can
  condemn the sensor, and its isolation with the note of the verdict. Between the two the sensor is
  FAULTED for the other threads.
\<close>

definition judge_sensor :: "fdi_context \<Rightarrow> sensor_state \<Rightarrow> fault_type \<Rightarrow> fdi_context" where
  "judge_sensor ctx before detected =
     (case before of
        STATE_HEALTHY \<Rightarrow> update_ctx ctx detected
      | STATE_SUSPECT \<Rightarrow> update_ctx ctx detected
      | _ \<Rightarrow> ctx)"

definition conclude_sensor :: "fdi_context \<Rightarrow> sensor_state \<Rightarrow> fault_type \<Rightarrow> fdi_context" where
  "conclude_sensor ctx before detected =
     (case before of
        STATE_HEALTHY \<Rightarrow> isolate_if_faulted ctx
      | STATE_SUSPECT \<Rightarrow> isolate_if_faulted ctx
      | STATE_FAULTED \<Rightarrow> isolate_ctx ctx
      | _ \<Rightarrow> ctx)\<lparr>last_fault := detected\<rparr>"

text \<open>An evaluation with a given verdict, and the whole function when nothing interferes.\<close>

definition evaluate_on :: "fdi_context \<Rightarrow> fault_type \<Rightarrow> fdi_context" where
  "evaluate_on ctx detected = conclude_sensor (judge_sensor ctx (state ctx) detected) (state ctx) detected"

definition evaluate_sensor ::
  "fdi_context \<Rightarrow> sensor_buffer option \<Rightarrow> sensor_buffer option \<Rightarrow> u64 \<Rightarrow> fdi_context" where
  "evaluate_sensor ctx self_buf redundant_buf now =
     evaluate_on ctx (fdi_detect (Some ctx) self_buf redundant_buf now)"

definition event_of :: "fdi_context \<Rightarrow> u64 \<Rightarrow> int \<Rightarrow> int \<Rightarrow> fault_event" where
  "event_of ctx now reason tries =
     \<lparr>ev_id = ctx_id ctx, ev_state = state ctx, ev_fault = last_fault ctx, ev_timestamp = now,
      synthetic_reason = reason, probe_attempts = tries\<rparr>"

definition needs_recovery :: "sensor_state \<Rightarrow> bool" where
  "needs_recovery s = (s = STATE_EXCLUDED \<or> s = STATE_PROBING \<or> s = STATE_VALIDATING)"

text \<open>
  One turn of the detector's loop over \<open>pairs\<close>: the context named \<open>sid\<close> is evaluated against its
  own buffer and its twin's; then the event to be forwarded is built from the context. The parts of
  the evaluation write through the pointer \<open>pairs[i].ctx\<close>.
\<close>

definition judge_pair :: "globals \<Rightarrow> sensor_id \<Rightarrow> sensor_state \<Rightarrow> fault_type \<Rightarrow> globals" where
  "judge_pair g sid before detected =
     (case ctx_for_id g sid of None \<Rightarrow> g | Some ctx \<Rightarrow> put_ctx g sid (judge_sensor ctx before detected))"

definition conclude_pair :: "globals \<Rightarrow> sensor_id \<Rightarrow> sensor_state \<Rightarrow> fault_type \<Rightarrow> globals" where
  "conclude_pair g sid before detected =
     (case ctx_for_id g sid of None \<Rightarrow> g | Some ctx \<Rightarrow> put_ctx g sid (conclude_sensor ctx before detected))"

definition evaluate_pair :: "globals \<Rightarrow> sensor_id \<Rightarrow> u64 \<Rightarrow> globals" where
  "evaluate_pair g sid now =
     (case ctx_for_id g sid of None \<Rightarrow> g
      | Some ctx \<Rightarrow> put_ctx g sid
          (evaluate_sensor ctx (buf_for_id g sid) (buf_for_id g (sensor_redundant_pair sid)) now))"

definition pair_event :: "globals \<Rightarrow> sensor_id \<Rightarrow> u64 \<Rightarrow> fault_event option" where
  "pair_event g sid now = map_option (\<lambda>ctx. event_of ctx now 0 0) (ctx_for_id g sid)"

definition pair_order :: "sensor_id list" where
  "pair_order = [SENSOR_US1, SENSOR_US2, SENSOR_IMU1, SENSOR_IMU2]"

section \<open>Recovery\<close>

definition log_recovery_event ::
  "bool \<Rightarrow> fdi_context \<Rightarrow> u64 \<Rightarrow> int \<Rightarrow> int \<Rightarrow> fault_event list" where
  "log_recovery_event logger_up ctx now reason tries =
     (if \<not> logger_up then [] else [event_of ctx now reason tries])"

definition backoff_us :: "int \<Rightarrow> u64" where
  "backoff_us tries =
     (let backoff = push_bit (nat (tries - 1)) RECOVERY_BACKOFF_BASE_US
      in if backoff > RECOVERY_BACKOFF_MAX_US then RECOVERY_BACKOFF_MAX_US else backoff)"

text \<open>The body of the timeout branch, on the context and its supervision record.\<close>

definition abandon_probe ::
  "bool \<Rightarrow> fdi_context \<Rightarrow> recovery_sup \<Rightarrow> u64 \<Rightarrow> fdi_context \<times> recovery_sup \<times> fault_event list" where
  "abandon_probe logger_up ctx0 sv0 now =
     (let ctx = isolate_ctx ctx0;
          sv = sv0\<lparr>attempts := attempts sv0 + 1\<rparr>;
          ev1 = log_recovery_event logger_up ctx now 1 (attempts sv) in
      if attempts sv \<ge> RECOVERY_MAX_ATTEMPTS
      then (ctx, sv\<lparr>permanent_fail := True\<rparr>, ev1 @ log_recovery_event logger_up ctx now 2 (attempts sv))
      else (ctx, sv\<lparr>next_probe_us := now + backoff_us (attempts sv)\<rparr>, ev1))"

text \<open>
  The switch of the handler: what it does at once, or \<open>None\<close> when the probe needs a verdict; and the
  use of that verdict.
\<close>

definition recover_switch ::
  "bool \<Rightarrow> fdi_context \<Rightarrow> recovery_sup \<Rightarrow> u64 \<Rightarrow> (fdi_context \<times> recovery_sup \<times> fault_event list) option" where
  "recover_switch logger_up ctx sv now =
     (case state ctx of
        STATE_EXCLUDED \<Rightarrow>
          if permanent_fail sv then Some (ctx, sv, [])
          else if now < next_probe_us sv then Some (ctx, sv, [])
          else Some (start_probe_ctx ctx, sv\<lparr>probe_started_us := now\<rparr>, [])
      | s \<Rightarrow>
          if s = STATE_PROBING \<or> s = STATE_VALIDATING then
            if now - probe_started_us sv > RECOVERY_TIMEOUT_US
            then Some (abandon_probe logger_up ctx sv now) else None
          else Some (ctx, sv, []))"

definition finish_probe :: "fdi_context \<Rightarrow> recovery_sup \<Rightarrow> fault_type \<Rightarrow> fdi_context \<times> recovery_sup" where
  "finish_probe ctx sv detected =
     (let ctx' = probe_ctx ctx detected
      in if state ctx' = STATE_HEALTHY
         then (ctx', sv\<lparr>attempts := 0, next_probe_us := 0, permanent_fail := False\<rparr>)
         else (ctx', sv))"

text \<open>A message with a given verdict, and the whole handler when nothing interferes.\<close>

definition recover_on ::
  "bool \<Rightarrow> fdi_context \<Rightarrow> recovery_sup \<Rightarrow> fault_type \<Rightarrow> u64 \<Rightarrow> fdi_context \<times> recovery_sup \<times> fault_event list" where
  "recover_on logger_up ctx sv detected now =
     (case recover_switch logger_up ctx sv now of
        Some r \<Rightarrow> r
      | None \<Rightarrow> (case finish_probe ctx sv detected of (ctx', sv') \<Rightarrow> (ctx', sv', [])))"

definition recover_sensor ::
  "bool \<Rightarrow> fdi_context \<Rightarrow> recovery_sup \<Rightarrow> sensor_buffer option \<Rightarrow> sensor_buffer option \<Rightarrow> u64
   \<Rightarrow> fdi_context \<times> recovery_sup \<times> fault_event list" where
  "recover_sensor logger_up ctx sv self_buf redundant_buf now =
     recover_on logger_up ctx sv (fdi_detect (Some ctx) self_buf redundant_buf now) now"

text \<open>
  One message of the recovery thread, with the events it sends to the logger: whole, and in the two
  parts between which the buffers are read.
\<close>

definition put_life :: "globals \<Rightarrow> sensor_id \<Rightarrow> fdi_context \<Rightarrow> recovery_sup \<Rightarrow> globals" where
  "put_life g sid ctx sv = (put_ctx g sid ctx)\<lparr>g_sup := (g_sup g)[sensor_idx sid := sv]\<rparr>"

definition recovery_switch :: "bool \<Rightarrow> globals \<Rightarrow> fault_event \<Rightarrow> (globals \<times> fault_event list) option" where
  "recovery_switch logger_up g ev =
     (case ctx_for_id g (ev_id ev) of None \<Rightarrow> Some (g, [])
      | Some ctx \<Rightarrow>
          map_option (\<lambda>(ctx', sv', evs). (put_life g (ev_id ev) ctx' sv', evs))
            (recover_switch logger_up ctx (g_sup g ! sensor_idx (ev_id ev)) (ev_timestamp ev)))"

definition recovery_finish :: "globals \<Rightarrow> fault_event \<Rightarrow> fault_type \<Rightarrow> globals" where
  "recovery_finish g ev detected =
     (case ctx_for_id g (ev_id ev) of None \<Rightarrow> g
      | Some ctx \<Rightarrow>
          (case finish_probe ctx (g_sup g ! sensor_idx (ev_id ev)) detected of
             (ctx', sv') \<Rightarrow> put_life g (ev_id ev) ctx' sv'))"

definition recovery_handle :: "bool \<Rightarrow> globals \<Rightarrow> fault_event \<Rightarrow> globals \<times> fault_event list" where
  "recovery_handle logger_up g ev =
     (case ctx_for_id g (ev_id ev) of None \<Rightarrow> (g, [])
      | Some ctx \<Rightarrow>
          (case recover_sensor logger_up ctx (g_sup g ! sensor_idx (ev_id ev))
             (buf_for_id g (ctx_id ctx)) (buf_for_id g (redundant_id ctx)) (ev_timestamp ev) of
           (ctx', sv', evs) \<Rightarrow> (put_life g (ev_id ev) ctx' sv', evs)))"

section \<open>Logger\<close>

text \<open>The table of last logged states, and the line written (without its newline), if any.\<close>

definition log_line :: "sensor_state list \<Rightarrow> fault_event \<Rightarrow> string" where
  "log_line last_state ev =
     ''['' @ digits (unat (ev_timestamp ev)) @ '' us] '' @ sensor_name (ev_id ev) @
     (if synthetic_reason ev = 1 then
        '': RECOVERY TIMEOUT (attempt '' @ show_int (probe_attempts ev) @ ''/'' @
        show_int RECOVERY_MAX_ATTEMPTS @ '') -> '' @ state_name (ev_state ev)
      else if synthetic_reason ev = 2 then
        '': RECOVERY ABANDONED PERMANENTLY after '' @ show_int (probe_attempts ev) @
        '' attempts -> '' @ state_name (ev_state ev)
      else
        '': '' @ state_name (last_state ! sensor_idx (ev_id ev)) @ '' -> '' @
        state_name (ev_state ev) @ '' (fault='' @ fault_name (ev_fault ev) @ '')'')"

definition logger_handle ::
  "sensor_state list \<Rightarrow> fault_event \<Rightarrow> sensor_state list \<times> string option" where
  "logger_handle last_state ev =
     (let idx = sensor_idx (ev_id ev);
          should_log = (ev_state ev \<noteq> last_state ! idx \<or> synthetic_reason ev \<noteq> 0)
      in if should_log then (last_state[idx := ev_state ev], Some (log_line last_state ev))
         else (last_state, None))"

section \<open>Dashboard\<close>

definition LOOP_PERIOD_US :: u32 where "LOOP_PERIOD_US = 100000"

text \<open>\<open>main.c\<close> has a \<open>now_us()\<close> of its own, for the time of a notification.\<close>

definition main_now_us :: "mgr_env \<Rightarrow> world \<Rightarrow> u64 \<times> world" where
  "main_now_us env w =
     (let ts = mono_clock env (mgr_tr w)
      in (word_of_int (tv_sec ts) * 1000000 + word_of_int (tv_nsec ts) div 1000,
          w\<lparr>mgr_tr := Clock_monotonic # mgr_tr w\<rparr>))"

definition loop_sleep :: "world \<Rightarrow> world" where
  "loop_sleep w = w\<lparr>mgr_tr := Usleep LOOP_PERIOD_US # mgr_tr w\<rparr>"

text \<open>The two lines of one cycle, without their newlines.\<close>

definition parking_line :: "fusion_result \<Rightarrow> string" where
  "parking_line fr =
     (if valid fr then
        ''[PARKING] dist='' @ show_float False 0 1 (distance_cm fr) @ ''cm (+/-'' @
        show_float False 0 1 (uncertainty_cm fr) @ '') zone='' @ fusion_zone_name fr @
        '' mode='' @ op_mode_name (mode fr) @ '' src='' @ show_int (contributors fr) @
        (if disagreement fr then '' DISAGREE'' else [])
      else
        ''[PARKING] NO VALID RANGE zone=CRITICAL/STOP mode='' @ op_mode_name (mode fr) @ '' held='' @
        show_float False 0 1 (f32_div (f32_of_int (uint (age_us fr))) f32_1e6) @ ''s'')"

definition status_line :: "globals \<Rightarrow> string" where
  "status_line g =
     ''[FDI] US1='' @ state_name (state (g_us1_ctx g)) @ '' US2='' @ state_name (state (g_us2_ctx g)) @
     '' IMU1='' @ state_name (state (g_imu1_ctx g)) @ '' IMU2='' @ state_name (state (g_imu2_ctx g))"

lemmas [c_ops] = evaluate_sensor_def evaluate_on_def judge_sensor_def conclude_sensor_def isolate_if_faulted_def
  abandon_probe_def

end
