(* ===== verification/Scenarios.thy ===== *)
theory Scenarios
  imports Sensor_Manager Fault_State
begin

text \<open>
  Concrete states the properties are applied to: the statics of \<open>src/main.c\<close> as the loader
  leaves them, buffers after one reading, and contexts in a given state.
\<close>

definition zero_ultrasonic :: ultrasonic where
  "zero_ultrasonic = \<lparr>trig_pin = 0, echo_pin = 0, us_sensor_id = 0, chid = 0, coid = 0\<rparr>"

definition zero_mpu6050 :: mpu6050 where
  "zero_mpu6050 = \<lparr>imu_fd = 0, imu_addr = 0, imu_sensor_id = 0, calib = zero_calib\<rparr>"

definition zero_manager :: sensor_manager where
  "zero_manager = \<lparr>us1 = zero_ultrasonic, us2 = zero_ultrasonic, imu1 = zero_mpu6050, imu2 = zero_mpu6050,
     i2c_fd = 0, us1_buf = zero_buffer, us2_buf = zero_buffer, imu1_buf = zero_buffer, imu2_buf = zero_buffer\<rparr>"

definition empty_log :: "sensor_id \<Rightarrow> sensor_buffer" where
  "empty_log i = zero_buffer\<lparr>buf_sensor_id := i, expected_period_us := SENSOR_PERIOD_US, lock := Mutex_Ready\<rparr>"

text \<open>A buffer after one reading of \<open>d\<close> cm at time \<open>t\<close>, and a manager with two such readings.\<close>

definition ranged :: "sensor_id \<Rightarrow> u64 \<Rightarrow> int \<Rightarrow> sensor_buffer" where
  "ranged i t d = write_into (t, [f32_of_int d], 1) (empty_log i)"

definition two_ranges :: "u64 \<Rightarrow> int \<Rightarrow> u64 \<Rightarrow> int \<Rightarrow> sensor_manager" where
  "two_ranges t1 d1 t2 d2 = zero_manager\<lparr>us1_buf := ranged SENSOR_US1 t1 d1, us2_buf := ranged SENSOR_US2 t2 d2,
     imu1_buf := empty_log SENSOR_IMU1, imu2_buf := empty_log SENSOR_IMU2\<rparr>"

lemma empty_log_inv [simp]: "buffer_inv (empty_log i)" "holds_only P (empty_log i)"
    "buf_sensor_id (empty_log i) = i" "history (empty_log i) = []"
  by (simp_all add: empty_log_def zero_buffer_inv holds_only_zero history_zero_buffer)

lemma int_range_entry:
  assumes "1 \<le> d" "d \<le> 500"
  shows "range_entry (t, [f32_of_int d])"
proof -
  have "f32_lt f32_0 (f32_of_int 1)" "f32_of_int 500 = MAX_DISTANCE_CM" by code_simp+
  moreover have "f32_le (f32_of_int 1) (f32_of_int d)" "f32_le (f32_of_int d) (f32_of_int 500)"
    using assms by (auto intro: f32_of_int_mono)
  ultimately show ?thesis by (auto simp: range_entry_def intro: f32_lt_le_trans)
qed

lemma one_range_ok: "write_args_ok [f32_of_int d] 1"
  by (simp add: write_args_ok_def)

lemma ranged_holds: "1 \<le> d \<Longrightarrow> d \<le> 500 \<Longrightarrow> holds_only range_entry (ranged i t d)"
  unfolding ranged_def by (rule holds_only_put) (simp_all add: one_range_ok int_range_entry)

lemma ranged_latest: "latest_entry (ranged i t d) = Some (t, [f32_of_int d])"
  using buf.newest_put [of "empty_log i" "(t, [f32_of_int d], 1)"] one_range_ok by (simp add: ranged_def)

lemma two_ranges_inv:
  "1 \<le> d1 \<Longrightarrow> d1 \<le> 500 \<Longrightarrow> 1 \<le> d2 \<Longrightarrow> d2 \<le> 500 \<Longrightarrow> mgr_inv (two_ranges t1 d1 t2 d2)"
  by (simp add: mgr_inv_def two_ranges_def ranged_holds) (simp add: ranged_def)

definition test_cfg :: fdi_config where
  "test_cfg = \<lparr>delay_timeout_us = 500000, stuck_threshold = f32_lit 3 1,
     noise_threshold = f32_lit 30 1, contradiction_threshold = f32_lit 70 1,
     fault_confirm_limit = 3, recovery_confirm_limit = 3\<rparr>"

definition zero_context :: fdi_context where
  "zero_context = \<lparr>ctx_id = SENSOR_US1, redundant_id = SENSOR_US1, cfg = test_cfg, state = STATE_HEALTHY,
     last_fault = FAULT_NONE, fault_streak = 0, recovery_streak = 0, validation_streak = 0\<rparr>"

definition ctx_in :: "sensor_id \<Rightarrow> sensor_state \<Rightarrow> fdi_context" where
  "ctx_in i s = (init_context zero_context i test_cfg)\<lparr>state := s\<rparr>"

lemma ctx_in_simps [simp]:
  "ctx_id (ctx_in i s) = i" "state (ctx_in i s) = s" "confirm_limit (ctx_in i s) = 3"
  "recover_limit (ctx_in i s) = 3" "fault_streak (ctx_in i s) = 0" "recovery_streak (ctx_in i s) = 0"
  by (simp_all add: ctx_in_def init_context_def confirm_limit_def recover_limit_def test_cfg_def)

lemma ctx_in_inv: "s \<in> {STATE_HEALTHY, STATE_FAULTED, STATE_EXCLUDED, STATE_PROBING} \<Longrightarrow> ctx_inv (ctx_in i s)"
  by (auto simp: ctx_inv_def ctx_in_def init_context_def)

end
