(* ===== verification/Fdi_Life.thy ===== *)
theory Fdi_Life
  imports Fdi_Threads Scenarios
begin

text \<open>
  What the fault detector thread and the recovery thread of \<open>src/main.c\<close> do to a sensor
  between them, in any order: the life of a sensor is a run of evaluations and recovery messages,
  each with the verdict it came to. Then the logger's edge-triggered table, and the shared state after start-up and after each
  handler.
\<close>

section \<open>The evaluation\<close>

lemma evaluate_on_frame [simp]:
  "ctx_id (evaluate_on c d) = ctx_id c" "redundant_id (evaluate_on c d) = redundant_id c"
  "cfg (evaluate_on c d) = cfg c"
  "last_fault (evaluate_on c d) = d"
  by (simp_all add: c_ops split: sensor_state.split)

lemma isolate_if_faulted_inv: "ctx_inv c \<Longrightarrow> ctx_inv (isolate_if_faulted c)"
  by (simp add: isolate_if_faulted_def isolate_ctx_inv)

lemma judge_sensor_inv: "ctx_inv c \<Longrightarrow> ctx_inv (judge_sensor c b d)"
  by (simp add: judge_sensor_def update_ctx_inv split: sensor_state.split)

lemma conclude_sensor_inv: "ctx_inv c \<Longrightarrow> ctx_inv (conclude_sensor c b d)"
  by (simp add: conclude_sensor_def isolate_if_faulted_inv isolate_ctx_inv split: sensor_state.split)

lemma evaluate_on_inv: "ctx_inv c \<Longrightarrow> ctx_inv (evaluate_on c d)"
  by (simp add: evaluate_on_def judge_sensor_inv conclude_sensor_inv)

text \<open>The parts of an evaluation follow the diagram, one edge each at most.\<close>

lemma judge_sensor_edge: "state (judge_sensor c b d) = state c \<or> fsm_edge (state c) (state (judge_sensor c b d))"
  using update_ctx_edge [of c d] by (simp add: judge_sensor_def split: sensor_state.split)

lemma conclude_sensor_edge:
  "state (conclude_sensor c b d) = state c \<or> fsm_edge (state c) (state (conclude_sensor c b d))"
  by (simp add: conclude_sensor_def isolate_if_faulted_def isolate_ctx_def split: sensor_state.split)

lemma evaluate_on_path: "fsm_edge\<^sup>*\<^sup>* (state c) (state (evaluate_on c d))"
  using edge_path [OF judge_sensor_edge, of c "state c" d]
    edge_path [OF conclude_sensor_edge, of "judge_sensor c (state c) d" "state c" d]
  by (simp add: evaluate_on_def)

lemma evaluate_on_not_faulted: "state (evaluate_on c d) \<noteq> STATE_FAULTED"
  by (simp add: c_ops split: sensor_state.split)

text \<open>The states the recovery thread owns.\<close>

lemma judge_owned: "needs_recovery b \<Longrightarrow> judge_sensor c b d = c"
  by (auto simp: needs_recovery_def judge_sensor_def)

lemma conclude_owned: "needs_recovery b \<Longrightarrow> conclude_sensor c b d = c\<lparr>last_fault := d\<rparr>"
  by (auto simp: needs_recovery_def conclude_sensor_def)

lemma evaluate_on_owned: "needs_recovery (state c) \<Longrightarrow> evaluate_on c d = c\<lparr>last_fault := d\<rparr>"
  by (simp add: evaluate_on_def judge_owned conclude_owned)

lemma evaluate_on_clean:
  "state c = STATE_HEALTHY \<Longrightarrow> state (evaluate_on c FAULT_NONE) = STATE_HEALTHY"
  by (simp add: c_ops update_ctx_def)

section \<open>The recovery\<close>

definition sup_inv :: "recovery_sup \<Rightarrow> bool" where
  [c_inv]: "sup_inv v = (0 \<le> attempts v \<and> (attempts v < 5 \<or> permanent_fail v))"

lemma zero_sup_inv: "sup_inv zero_sup"
  by (simp add: sup_inv_def zero_sup_def)

lemma abandon_probe_inv:
  "sup_inv v \<Longrightarrow> abandon_probe up c v now = (c', v', evs) \<Longrightarrow> sup_inv v'"
  by (auto simp: abandon_probe_def Let_def sup_inv_def RECOVERY_MAX_ATTEMPTS_def split: if_splits)

lemma recover_on_cases:
  assumes "recover_on up c v d now = (c', v', evs)"
  obtains (idle) "\<not> needs_recovery (state c)" "c' = c" "v' = v" "evs = []"
    | (held) "state c = STATE_EXCLUDED" "permanent_fail v \<or> now < next_probe_us v" "c' = c" "v' = v" "evs = []"
    | (probe) "state c = STATE_EXCLUDED" "\<not> permanent_fail v" "\<not> now < next_probe_us v"
        "c' = start_probe_ctx c" "v' = v\<lparr>probe_started_us := now\<rparr>" "evs = []"
    | (timeout) "state c = STATE_PROBING \<or> state c = STATE_VALIDATING"
        "now - probe_started_us v > RECOVERY_TIMEOUT_US" "abandon_probe up c v now = (c', v', evs)" "c' = c"
    | (evaluate) "state c = STATE_PROBING \<or> state c = STATE_VALIDATING"
        "\<not> now - probe_started_us v > RECOVERY_TIMEOUT_US"
        "c' = probe_ctx c (d)" "evs = []"
        "v' = (if state c' = STATE_HEALTHY
          then v\<lparr>attempts := 0, next_probe_us := 0, permanent_fail := False\<rparr> else v)"
proof (cases "needs_recovery (state c)")
  case False
  then show ?thesis using assms
    by (intro idle) (cases "state c"; simp add: needs_recovery_def recover_on_def recover_switch_def finish_probe_def)+
next
  case True
  then consider (e) "state c = STATE_EXCLUDED" | (p) "state c = STATE_PROBING \<or> state c = STATE_VALIDATING"
    by (auto simp: needs_recovery_def)
  then show ?thesis
  proof cases
    case e
    then show ?thesis
      using assms held probe by (auto simp: recover_on_def recover_switch_def finish_probe_def split: if_splits)
  next
    case p
    show ?thesis
    proof (cases "now - probe_started_us v > RECOVERY_TIMEOUT_US")
      case t: True
      then have "abandon_probe up c v now = (c', v', evs)"
        using assms p by (auto simp: recover_on_def recover_switch_def finish_probe_def)
      then show ?thesis using p t timeout
        by (auto simp: c_ops Let_def split: if_splits)
    next
      case f: False
      then show ?thesis using assms p
        by (intro evaluate) (auto simp: recover_on_def recover_switch_def finish_probe_def Let_def split: if_splits)
    qed
  qed
qed

lemma recover_on_inv:
  assumes "recover_on up c v d now = (c', v', evs)" "ctx_inv c" "sup_inv v"
  shows "ctx_inv c' \<and> sup_inv v'"
  using assms(1)
proof (cases rule: recover_on_cases)
  case timeout
  then show ?thesis using assms abandon_probe_inv by blast
qed (use assms(2,3) in \<open>auto simp: start_probe_ctx_inv probe_ctx_inv sup_inv_def\<close>)

lemma recover_on_frame:
  assumes "recover_on up c v d now = (c', v', evs)"
  shows "ctx_id c' = ctx_id c \<and> redundant_id c' = redundant_id c \<and> cfg c' = cfg c"
  using assms by (cases rule: recover_on_cases) auto

lemma recover_on_edge:
  assumes "recover_on up c v d now = (c', v', evs)"
  shows "state c' = state c \<or> fsm_edge (state c) (state c')"
  using assms by (cases rule: recover_on_cases) (use probe_ctx_edge in \<open>auto simp: start_probe_ctx_def\<close>)


section \<open>One sensor under both threads\<close>

text \<open>
  What happens to one sensor, in the order it happens: an evaluation by the detector, one that it
  began while the sensor was out of service (which only notes the verdict), or a message handled
  by the recovery thread, each with the verdict of the checks, whatever it is, and the message's time.
\<close>

datatype life_event =
    Evaluated fault_type u64
  | Overtaken fault_type u64
  | Recovered bool fault_type u64

type_synonym sensor_life = "fdi_context \<times> recovery_sup"

fun life_step :: "life_event \<Rightarrow> sensor_life \<Rightarrow> sensor_life" where
  "life_step (Evaluated d now) (c, v) = (evaluate_on c d, v)"
| "life_step (Overtaken d now) (c, v) = (c\<lparr>last_fault := d\<rparr>, v)"
| "life_step (Recovered up d now) (c, v) = (case recover_on up c v d now of (c', v', _) \<Rightarrow> (c', v'))"

fun life_time :: "life_event \<Rightarrow> u64" where
  "life_time (Evaluated d now) = now"
| "life_time (Overtaken d now) = now"
| "life_time (Recovered up d now) = now"

fun verdict :: "life_event \<Rightarrow> fault_type" where
  "verdict (Evaluated d now) = d"
| "verdict (Overtaken d now) = d"
| "verdict (Recovered up d now) = d"

fun recovers :: "life_event \<Rightarrow> bool" where
  "recovers (Recovered up d now) = True"
| "recovers _ = False"

fun evaluates :: "life_event \<Rightarrow> bool" where
  "evaluates (Evaluated d now) = True"
| "evaluates _ = False"

text \<open>The events of the two functions of the code, run without interference.\<close>

lemma life_step_functions:
  "life_step (Evaluated (fdi_detect (Some c) s r now) now) (c, v) = (evaluate_sensor c s r now, v)"
  "life_step (Recovered up (fdi_detect (Some c) s r now) now) (c, v)
     = (fst (recover_sensor up c v s r now), fst (snd (recover_sensor up c v s r now)))"
  by (simp_all add: evaluate_sensor_def recover_sensor_def split: prod.split)

definition life_run :: "life_event list \<Rightarrow> sensor_life \<Rightarrow> sensor_life" where
  "life_run es x = fold life_step es x"

definition life_inv :: "sensor_life \<Rightarrow> bool" where
  [c_inv]: "life_inv x = (ctx_inv (fst x) \<and> sup_inv (snd x))"

definition life_state :: "sensor_life \<Rightarrow> sensor_state" where
  "life_state x = state (fst x)"

lemma life_run_simps [simp]:
  "life_run [] x = x" "life_run (e # es) x = life_run es (life_step e x)"
  "life_run (es @ ds) x = life_run ds (life_run es x)"
  by (simp_all add: life_run_def)

lemma life_step_recovered:
  "\<exists>c' v' evs. recover_on up c v d now = (c', v', evs) \<and> life_step (Recovered up d now) (c, v) = (c', v')"
  by (cases "recover_on up c v d now") auto

lemma life_step_inv: "life_inv x \<Longrightarrow> life_inv (life_step e x)"
proof (cases x; cases e)
  fix c v up d now
  assume "life_inv x" "x = (c, v)" "e = Recovered up d now"
  then show ?thesis
    using recover_on_inv [of up c v d now] life_step_recovered [of up c v d now]
    by (auto simp: life_inv_def)
qed (auto simp: life_inv_def evaluate_on_inv)

lemma life_step_path: "fsm_edge\<^sup>*\<^sup>* (life_state x) (life_state (life_step e x))"
proof (cases x; cases e)
  fix c v up d now
  assume "x = (c, v)" "e = Recovered up d now"
  then show ?thesis
    using edge_path [OF recover_on_edge, of up c v d now] life_step_recovered [of up c v d now]
    by (auto simp: life_state_def)
qed (auto simp: life_state_def evaluate_on_path)

interpretation life: guarded_machine life_inv life_state life_step
  by unfold_locales (rule life_step_inv, assumption, rule life_step_path)

lemma recover_not_faulted:
  assumes "recover_on up c v d now = (c', v', evs)" "state c \<noteq> STATE_FAULTED"
  shows "state c' \<noteq> STATE_FAULTED"
  using assms by (cases rule: recover_on_cases) (auto simp: start_probe_ctx_def probe_ctx_def Let_def)

lemma life_step_not_faulted:
  "life_state x \<noteq> STATE_FAULTED \<Longrightarrow> life_state (life_step e x) \<noteq> STATE_FAULTED"
proof (cases x; cases e)
  fix c v up d now
  assume "life_state x \<noteq> STATE_FAULTED" "x = (c, v)" "e = Recovered up d now"
  then show ?thesis
    using recover_not_faulted [of up c v d now] life_step_recovered [of up c v d now]
    by (auto simp: life_state_def)
qed (auto simp: life_state_def evaluate_on_not_faulted)

lemma life_run_not_faulted:
  "life_state x \<noteq> STATE_FAULTED \<Longrightarrow> life_state (life_run es x) \<noteq> STATE_FAULTED"
  by (induction es arbitrary: x) (simp_all add: life_step_not_faulted)


section \<open>Readmission\<close>

text \<open>How far a sensor has come back: its credit grows by at most one with each message.\<close>

definition credit :: "fdi_context \<Rightarrow> nat" where
  "credit c = (case state c of STATE_PROBING \<Rightarrow> 1 | STATE_VALIDATING \<Rightarrow> 1 + unat (validation_streak c) | _ \<Rightarrow> 0)"

definition out_of_service :: "fdi_context \<Rightarrow> bool" where
  "out_of_service c = needs_recovery (state c)"

lemma evaluate_credit:
  "out_of_service c \<Longrightarrow> out_of_service (evaluate_on c d) \<and> credit (evaluate_on c d) = credit c"
  by (cases "state c") (simp_all add: out_of_service_def credit_def evaluate_on_owned)

lemma recover_credit:
  assumes "recover_on up c v d now = (c', v', evs)" "out_of_service c" "ctx_inv c"
  shows "if out_of_service c' then credit c' \<le> Suc (credit c)
    else max 2 (recover_limit c) \<le> credit c"
  using assms(1)
proof (cases rule: recover_on_cases)
  case evaluate
  have vs: "state c = STATE_VALIDATING \<Longrightarrow> 1 \<le> unat (validation_streak c)"
    using assms(3) by (auto simp: ctx_inv_def word_le_nat_alt)
  show ?thesis
    using evaluate vs u8_inc_le [of "validation_streak c"]
    by (auto simp: probe_ctx_def Let_def out_of_service_def needs_recovery_def credit_def
        word_le_nat_alt recover_limit_def)
qed (use assms(2) in \<open>auto simp: out_of_service_def needs_recovery_def credit_def start_probe_ctx_def\<close>)


lemma life_readmission:
  "ctx_inv c \<Longrightarrow> out_of_service c \<Longrightarrow> \<not> out_of_service (fst (life_run es (c, v)))
   \<Longrightarrow> Suc (max 2 (recover_limit c)) \<le> credit c + length (filter recovers es)"
proof (induction es arbitrary: c v)
  case (Cons e es)
  show ?case
  proof (cases e)
    case (Evaluated d now)
    have "recover_limit (evaluate_on c d) = recover_limit c" by (simp add: recover_limit_def)
    then show ?thesis
      using Cons.IH [of "evaluate_on c d" v] Cons.prems evaluate_credit [of c d] Evaluated
      by (simp add: evaluate_on_inv)
  next
    case (Overtaken d now)
    have "recover_limit (c\<lparr>last_fault := d\<rparr>) = recover_limit c" "out_of_service (c\<lparr>last_fault := d\<rparr>)"
        "credit (c\<lparr>last_fault := d\<rparr>) = credit c"
      using Cons.prems(2) by (cases "state c"; simp add: recover_limit_def out_of_service_def credit_def)+
    then show ?thesis
      using Cons.IH [of "c\<lparr>last_fault := d\<rparr>" v] Cons.prems Overtaken by simp
  next
    case (Recovered up d now)
    obtain c' v' evs where r: "recover_on up c v d now = (c', v', evs)"
      by (cases "recover_on up c v d now") auto
    have l: "recover_limit c' = recover_limit c" using recover_on_frame [OF r] by (simp add: recover_limit_def)
    have inv: "ctx_inv c'"
      using r Cons.prems(1) by (cases rule: recover_on_cases) (auto intro: start_probe_ctx_inv probe_ctx_inv)
    note k = recover_credit [OF r Cons.prems(2,1)]
    show ?thesis
    proof (cases "out_of_service c'")
      case True
      then show ?thesis using Cons.IH [OF inv True, of v'] Cons.prems(3) r Recovered k l True
        by (simp add: max_def split: if_split_asm)
    next
      case False
      then show ?thesis using k Recovered by simp
    qed
  qed
qed simp

section \<open>Timeouts\<close>

definition expired :: "recovery_sup \<Rightarrow> u64 \<Rightarrow> bool" where
  "expired v now = (unat (probe_started_us v) + 2000000 < unat now)"

lemma expired_timeout:
  assumes "expired v now"
  shows "now - probe_started_us v > RECOVERY_TIMEOUT_US"
proof -
  have "probe_started_us v \<le> now" using assms by (simp add: expired_def word_le_nat_alt)
  then show ?thesis using assms by (simp add: expired_def RECOVERY_TIMEOUT_US_def word_less_nat_alt unat_sub)
qed

lemma not_expired:
  assumes "probe_started_us v \<le> now" "\<not> expired v now"
  shows "\<not> now - probe_started_us v > RECOVERY_TIMEOUT_US"
  using assms by (simp add: expired_def RECOVERY_TIMEOUT_US_def word_less_nat_alt unat_sub)

lemma expired_mono: "expired v t \<Longrightarrow> t \<le> t' \<Longrightarrow> expired v t'"
  by (simp add: expired_def word_le_nat_alt)

definition probing :: "fdi_context \<Rightarrow> bool" where
  "probing c = (state c = STATE_PROBING \<or> state c = STATE_VALIDATING)"

lemma abandon_probe_eq:
  assumes "abandon_probe up c v now = (c', v', evs)" "probing c"
  shows "c' = c" "probe_started_us v' = probe_started_us v" "attempts v' = attempts v + 1"
    "permanent_fail v' = (permanent_fail v \<or> 5 \<le> attempts v + 1)"
  using assms
  by (auto simp: c_ops probing_def Let_def RECOVERY_MAX_ATTEMPTS_def split: if_splits)

lemma timeout_step:
  assumes "probing c" "expired v now"
  shows "fst (recover_on up c v d now) = c"
    and "attempts (fst (snd (recover_on up c v d now))) = attempts v + 1"
    and "probe_started_us (fst (snd (recover_on up c v d now))) = probe_started_us v"
    and "permanent_fail (fst (snd (recover_on up c v d now))) = (permanent_fail v \<or> 5 \<le> attempts v + 1)"
proof -
  obtain c' v' evs where a: "abandon_probe up c v now = (c', v', evs)" by (cases "abandon_probe up c v now") auto
  have "recover_on up c v d now = (c', v', evs)"
    using assms(1) expired_timeout [OF assms(2)] a by (auto simp: probing_def recover_on_def recover_switch_def finish_probe_def)
  with abandon_probe_eq [OF a assms(1)] show "fst (recover_on up c v d now) = c"
    "attempts (fst (snd (recover_on up c v d now))) = attempts v + 1"
    "probe_started_us (fst (snd (recover_on up c v d now))) = probe_started_us v"
    "permanent_fail (fst (snd (recover_on up c v d now))) = (permanent_fail v \<or> 5 \<le> attempts v + 1)"
    by simp_all
qed

text \<open>Once a probe has expired, no later message or evaluation changes the state of the sensor.\<close>

lemma probing_owned: "probing c \<Longrightarrow> needs_recovery (state c)"
  by (auto simp: probing_def needs_recovery_def)

lemma life_timeout:
  "probing c \<Longrightarrow> expired v t \<Longrightarrow> \<forall>e\<in>set es. t \<le> life_time e
   \<Longrightarrow> state (fst (life_run es (c, v))) = state c
     \<and> attempts (snd (life_run es (c, v))) = attempts v + int (length (filter recovers es))
     \<and> expired (snd (life_run es (c, v))) t
     \<and> (5 \<le> attempts v + int (length (filter recovers es)) \<longrightarrow> 0 < length (filter recovers es)
         \<longrightarrow> permanent_fail (snd (life_run es (c, v))))"
proof (induction es rule: rev_induct)
  case (snoc e es)
  obtain c1 v1 where l: "life_run es (c, v) = (c1, v1)" by fastforce
  note ih = snoc.IH [OF snoc.prems(1,2)]
  have i: "state c1 = state c" "attempts v1 = attempts v + int (length (filter recovers es))" "expired v1 t"
      "5 \<le> attempts v + int (length (filter recovers es)) \<longrightarrow> 0 < length (filter recovers es) \<longrightarrow> permanent_fail v1"
    using ih snoc.prems(3) l by auto
  have p: "probing c1" using i(1) snoc.prems(1) by (simp add: probing_def)
  show ?case
  proof (cases e)
    case (Evaluated d now)
    then show ?thesis using i l p by (simp add: evaluate_on_owned [OF probing_owned])
  next
    case (Overtaken d now)
    then show ?thesis using i l by simp
  next
    case (Recovered up d now)
    have "expired v1 now" using i(3) snoc.prems(3) Recovered by (auto intro: expired_mono)
    note st = timeout_step [OF p this, of up d]
    then show ?thesis using i l Recovered by (cases "recover_on up c1 v1 d now") (auto simp: expired_def)
  qed
qed simp


section \<open>The supervision record away from a probe\<close>

definition unused_sup :: "recovery_sup \<Rightarrow> bool" where
  "unused_sup v = (attempts v = 0 \<and> next_probe_us v = 0 \<and> \<not> permanent_fail v)"

definition sup_clean :: "sensor_life \<Rightarrow> u64 \<Rightarrow> bool" where
  "sup_clean x t =
     ((unused_sup (snd x) \<or> probing (fst x) \<and> expired (snd x) t)
      \<and> (probing (fst x) \<longrightarrow> probe_started_us (snd x) \<le> t))"

lemma timeout_expired:
  assumes "probe_started_us v \<le> now" "now - probe_started_us v > RECOVERY_TIMEOUT_US"
  shows "expired v now"
  using not_expired [OF assms(1)] assms(2) by blast

lemma evaluate_probing: "probing (evaluate_on c d) = probing c"
proof (cases "needs_recovery (state c)")
  case True
  then show ?thesis by (simp add: evaluate_on_owned probing_def)
next
  case False
  then show ?thesis
    by (cases "state c") (auto simp: needs_recovery_def probing_def c_ops Let_def update_ctx_def)
qed

lemma recover_sup_clean:
  assumes "recover_on up c v d now = (c', v', evs)" "sup_clean (c, v) t" "t \<le> now"
  shows "sup_clean (c', v') now"
  using assms(1)
proof (cases rule: recover_on_cases)
  case idle
  then have "\<not> probing c" by (auto simp: probing_def needs_recovery_def)
  then show ?thesis using assms(2) idle by (simp add: sup_clean_def)
next
  case held
  then have "\<not> probing c" by (simp add: probing_def)
  then show ?thesis using assms(2) held by (simp add: sup_clean_def)
next
  case probe
  then have "\<not> probing c" by (simp add: probing_def)
  then show ?thesis using assms(2) probe by (simp add: sup_clean_def unused_sup_def)
next
  case timeout
  then have p: "probing c" by (simp add: probing_def)
  have st: "probe_started_us v \<le> now" using assms(2,3) p by (auto simp: sup_clean_def)
  have "expired v now" using timeout_expired [OF st timeout(2)] .
  then show ?thesis using abandon_probe_eq [OF timeout(3) p] p st by (simp add: sup_clean_def expired_def)
next
  case evaluate
  then have p: "probing c" by (simp add: probing_def)
  have "\<not> expired v t" using evaluate(2) assms(3) by (metis expired_mono expired_timeout)
  then have "unused_sup v" "probe_started_us v \<le> now" using assms(2,3) p by (auto simp: sup_clean_def)
  then show ?thesis using evaluate by (simp add: sup_clean_def unused_sup_def)
qed

lemma life_step_sup_clean:
  assumes "sup_clean x t" "t \<le> life_time e"
  shows "sup_clean (life_step e x) (life_time e)"
proof -
  obtain c v where x: "x = (c, v)" by fastforce
  show ?thesis
  proof (cases e)
    case (Evaluated d now)
    then show ?thesis using assms x by (auto simp: sup_clean_def evaluate_probing intro: expired_mono)
  next
    case (Overtaken d now)
    then show ?thesis using assms x by (auto simp: sup_clean_def probing_def intro: expired_mono)
  next
    case (Recovered up d now)
    then show ?thesis
      using assms x life_step_recovered [of up c v d now] recover_sup_clean [of up c v d now] by auto
  qed
qed

lemma life_run_sup_clean:
  "sup_clean x t \<Longrightarrow> sorted (t # map life_time es)
   \<Longrightarrow> sup_clean (life_run es x) (last (t # map life_time es))"
proof (induction es arbitrary: x t)
  case (Cons e es)
  have "sup_clean (life_step e x) (life_time e)"
    using Cons.prems by (intro life_step_sup_clean) auto
  then show ?case using Cons.IH [of "life_step e x" "life_time e"] Cons.prems(2) by auto
qed simp

text \<open>A failed probe costs nothing: the sensor is excluded again with the record it had.\<close>

lemma failed_probe_cycle:
  assumes "state c = STATE_EXCLUDED" "unused_sup v" "t' - t \<le> RECOVERY_TIMEOUT_US" "d' \<noteq> FAULT_NONE"
  shows "life_state (life_run [Recovered up d t, Recovered up d' t'] (c, v)) = STATE_EXCLUDED
    \<and> unused_sup (snd (life_run [Recovered up d t, Recovered up d' t'] (c, v)))"
proof -
  let ?c = "start_probe_ctx c" and ?v = "v\<lparr>probe_started_us := t\<rparr>"
  have 1: "recover_on up c v d t = (?c, ?v, [])"
    using assms(1,2) by (simp add: recover_on_def recover_switch_def unused_sup_def)
  have p: "state ?c = STATE_PROBING" using assms(1) by (simp add: start_probe_ctx_def)
  then have e: "state (probe_ctx ?c d') = STATE_EXCLUDED" using assms(4) by (simp add: probe_ctx_def)
  then have "recover_on up ?c ?v d' t' = (probe_ctx ?c d', ?v, [])"
    using p assms(3) by (simp add: recover_on_def recover_switch_def finish_probe_def not_less [symmetric] Let_def)
  then show ?thesis using 1 e assms(2) by (simp add: life_state_def unused_sup_def)
qed

lemma backoff_value:
  assumes "0 \<le> k" "k < 4"
  shows "backoff_us (k + 1) = 1000000 * 2 ^ nat k"
proof -
  have "k = 0 \<or> k = 1 \<or> k = 2 \<or> k = 3" using assms by auto
  then show ?thesis
    by (elim disjE; hypsubst) (simp_all add: backoff_us_def RECOVERY_BACKOFF_BASE_US_def
        RECOVERY_BACKOFF_MAX_US_def push_bit_eq_mult)
qed

section \<open>The logger\<close>

definition logger_run :: "sensor_state list \<Rightarrow> fault_event list \<Rightarrow> sensor_state list \<times> string list" where
  "logger_run tbl evs = fold (\<lambda>ev (tbl, out). case logger_handle tbl ev of
     (tbl', l) \<Rightarrow> (tbl', case l of None \<Rightarrow> out | Some x \<Rightarrow> out @ [x])) evs (tbl, [])"

lemma sensor_idx_less [simp]: "sensor_idx i < 4"
  by (cases i) simp_all

lemma sensor_idx_inj: "real_sensor i \<Longrightarrow> real_sensor j \<Longrightarrow> (sensor_idx i = sensor_idx j) = (i = j)"
  by (cases i; cases j) (simp_all add: real_sensor_iff)

lemma logger_handle_table:
  "length tbl = 4 \<Longrightarrow> fst (logger_handle tbl ev) = tbl[sensor_idx (ev_id ev) := ev_state ev]"
  by (auto simp: logger_handle_def Let_def)

lemma logger_handle_logs:
  "(snd (logger_handle tbl ev) \<noteq> None)
   = (ev_state ev \<noteq> tbl ! sensor_idx (ev_id ev) \<or> synthetic_reason ev \<noteq> 0)"
  by (simp add: logger_handle_def Let_def)

text \<open>The events a log keeps, given the table it starts from.\<close>

fun logged :: "sensor_state list \<Rightarrow> fault_event list \<Rightarrow> fault_event list" where
  "logged tbl [] = []"
| "logged tbl (ev # evs) =
     (case logger_handle tbl ev of (tbl', l) \<Rightarrow> (if l = None then [] else [ev]) @ logged tbl' evs)"

lemma logged_edges:
  assumes "real_sensor i"
  shows "length tbl = 4 \<Longrightarrow> \<forall>ev\<in>set evs. real_sensor (ev_id ev) \<and> synthetic_reason ev = 0
   \<Longrightarrow> (tbl ! sensor_idx i) # map ev_state (filter (\<lambda>ev. ev_id ev = i) (logged tbl evs))
     = remdups_adj ((tbl ! sensor_idx i) # map ev_state (filter (\<lambda>ev. ev_id ev = i) evs))"
proof (induction evs arbitrary: tbl)
  case (Cons ev evs)
  obtain tbl' l where h: "logger_handle tbl ev = (tbl', l)" by fastforce
  have t: "tbl' = tbl[sensor_idx (ev_id ev) := ev_state ev]"
    using logger_handle_table [OF Cons.prems(1), of ev] h by simp
  have l: "(l = None) = (ev_state ev = tbl ! sensor_idx (ev_id ev))"
    using logger_handle_logs [of tbl ev] h Cons.prems(2) by auto
  have ih: "(tbl' ! sensor_idx i) # map ev_state (filter (\<lambda>ev. ev_id ev = i) (logged tbl' evs))
     = remdups_adj ((tbl' ! sensor_idx i) # map ev_state (filter (\<lambda>ev. ev_id ev = i) evs))"
    using Cons.IH [of tbl'] Cons.prems t by simp
  show ?case
  proof (cases "ev_id ev = i")
    case True
    then have "tbl' ! sensor_idx i = ev_state ev" using t Cons.prems(1) by simp
    then show ?thesis using ih True l h by auto
  next
    case False
    then have "tbl' ! sensor_idx i = tbl ! sensor_idx i"
      using t Cons.prems assms by (simp add: sensor_idx_inj)
    then show ?thesis using ih False h by auto
  qed
qed simp

section \<open>Start-up\<close>

definition life_of :: "globals \<Rightarrow> sensor_id \<Rightarrow> sensor_life option" where
  "life_of g i = map_option (\<lambda>c. (c, g_sup g ! sensor_idx i)) (ctx_for_id g i)"

definition globals_inv :: "globals \<Rightarrow> bool" where
  [c_inv]: "globals_inv g = (mgr_inv (g_mgr g) \<and> length (g_sup g) = 4
     \<and> (\<forall>i\<in>set pair_order. \<exists>c v. life_of g i = Some (c, v) \<and> ctx_id c = i \<and> life_inv (c, v)))"

lemma pair_order_real: "i \<in> set pair_order = real_sensor i"
  by (cases i) (auto simp: pair_order_def real_sensor_iff)

lemma init_contexts_life:
  assumes "real_sensor i"
  shows "\<exists>c. life_of (init_contexts g) i = Some (c, zero_sup) \<and> ctx_id c = i \<and> ctx_inv c
     \<and> state c = STATE_HEALTHY \<and> recover_limit c = 3 \<and> confirm_limit c = 3"
  using assms
  by (cases i) (auto simp: real_sensor_iff life_of_def init_contexts_def init_context_inv recover_limit_def
      confirm_limit_def us_cfg_def imu_cfg_def init_context_def ctx_inv_def)

lemma create_queues_frame:
  assumes "create_queues a b c g = (rc, g')"
  shows "g_mgr g' = g_mgr g \<and> ctx_for_id g' = ctx_for_id g \<and> g_sup g' = g_sup g \<and> g_fusion g' = g_fusion g"
proof -
  have "g_mgr g' = g_mgr g \<and> ctx_for_id g' i = ctx_for_id g i \<and> g_sup g' = g_sup g \<and> g_fusion g' = g_fusion g" for i
    using assms by (cases i) (auto simp: create_queues_def queue_create_def Let_def split: if_splits)
  then show ?thesis by auto
qed

lemma main_init_inv:
  assumes "main_init env a b c g w = (0, g', w')"
  shows "globals_inv g' \<and> g_fusion g' = zero_state
    \<and> (\<forall>i\<in>set pair_order. map_option history (mgr_buffer (g_mgr g') i) = Some []
         \<and> (\<exists>c. life_of g' i = Some (c, zero_sup) \<and> ctx_id c = i \<and> state c = STATE_HEALTHY
               \<and> recover_limit c = 3 \<and> confirm_limit c = 3))"
proof -
  obtain m w1 where m: "sensor_manager_init env (Some (g_mgr g)) w = (0, m, w1)"
    using assms by (auto simp: main_init_def Let_def split: prod.splits if_splits)
  from sensor_manager_init_ok [OF m] obtain x where x: "m = Some x" "mgr_inv x"
    "\<And>i. real_sensor i \<Longrightarrow> map_option history (mgr_buffer x i) = Some []" by auto
  define h where "h = init_contexts (g\<lparr>g_mgr := x\<rparr>)"
  have q: "create_queues a b c h = (0, g')"
    using assms m x(1) by (auto simp: main_init_def Let_def h_def split: prod.splits)
  note f = create_queues_frame [OF q]
  have h: "g_mgr h = x" "length (g_sup h) = 4" "g_fusion h = zero_state"
    by (simp_all add: h_def init_contexts_def fusion_init_def)
  have l: "\<exists>c. life_of g' i = Some (c, zero_sup) \<and> ctx_id c = i \<and> ctx_inv c \<and> state c = STATE_HEALTHY
      \<and> recover_limit c = 3 \<and> confirm_limit c = 3" if "i \<in> set pair_order" for i
    using init_contexts_life [of i "g\<lparr>g_mgr := x\<rparr>"] f that
    by (auto simp: life_of_def h_def pair_order_def real_sensor_iff)
  then have "globals_inv g'"
    using f h x(2) zero_sup_inv by (fastforce simp: c_inv)
  moreover have "\<forall>i\<in>set pair_order. map_option history (mgr_buffer (g_mgr g') i) = Some []"
    using f h x(3) by (simp add: pair_order_real del: map_option_eq_Some)
  ultimately show ?thesis using l f h by (auto simp del: map_option_eq_Some)
qed

section \<open>The handlers on the shared state\<close>

lemma ctx_put [simp]:
  "ctx_for_id (put_ctx g i c) j = (if j = i \<and> real_sensor i then Some c else ctx_for_id g j)"
  by (cases i; cases j) (simp_all add: real_sensor_iff)

lemma put_ctx_frame [simp]:
  "g_mgr (put_ctx g i c) = g_mgr g" "g_sup (put_ctx g i c) = g_sup g" "g_fusion (put_ctx g i c) = g_fusion g"
  by (cases i; simp)+

lemma ctx_for_id_sup [simp]: "ctx_for_id (g\<lparr>g_sup := s\<rparr>) i = ctx_for_id g i"
  by (cases i) simp_all

lemma ctx_for_id_None: "(ctx_for_id g i = None) = (\<not> real_sensor i)"
  by (cases i) (simp_all add: real_sensor_iff)

lemma sup_put [simp]:
  "g_mgr (put_life g i c v) = g_mgr g" "g_fusion (put_life g i c v) = g_fusion g"
  "length (g_sup (put_life g i c v)) = length (g_sup g)"
  by (simp_all add: put_life_def)

lemma life_put [simp]:
  assumes "length (g_sup g) = 4" "real_sensor i" "real_sensor j"
  shows "life_of (put_life g i c v) j = (if j = i then Some (c, v) else life_of g j)"
  using assms by (auto simp: life_of_def put_life_def sensor_idx_inj)

lemma life_put_ctx [simp]:
  "life_of (put_ctx g i c) j = (if j = i \<and> real_sensor i then Some (c, g_sup g ! sensor_idx i) else life_of g j)"
  by (auto simp: life_of_def)

lemma life_ofE:
  assumes "life_of g i = Some (c, v)"
  shows "ctx_for_id g i = Some c" "v = g_sup g ! sensor_idx i" "real_sensor i"
  using assms ctx_for_id_None [of g i] by (auto simp: life_of_def)

lemma judge_pair_put: "life_of g i = Some (c, v) \<Longrightarrow> judge_pair g i b d = put_ctx g i (judge_sensor c b d)"
  by (simp add: judge_pair_def life_ofE)

lemma conclude_pair_put: "life_of g i = Some (c, v) \<Longrightarrow> conclude_pair g i b d = put_ctx g i (conclude_sensor c b d)"
  by (simp add: conclude_pair_def life_ofE)

text \<open>The operations on the contexts leave the rest of the globals alone.\<close>

lemma handlers_frame [simp]:
  "g_mgr (judge_pair g i b d) = g_mgr g" "g_fusion (judge_pair g i b d) = g_fusion g"
  "g_mgr (conclude_pair g i b d) = g_mgr g" "g_fusion (conclude_pair g i b d) = g_fusion g"
  "g_mgr (recovery_finish g ev d) = g_mgr g" "g_fusion (recovery_finish g ev d) = g_fusion g"
  by (simp_all add: judge_pair_def conclude_pair_def recovery_finish_def split: option.split prod.split)

lemma recovery_switch_frame:
  "recovery_switch up g ev = Some (g', evs) \<Longrightarrow> g_mgr g' = g_mgr g \<and> g_fusion g' = g_fusion g"
  by (auto simp: recovery_switch_def split: option.splits)

lemma recovery_switch_put:
  "life_of g (ev_id ev) = Some (c, v) \<Longrightarrow> recovery_switch up g ev
     = map_option (\<lambda>(c', v', evs). (put_life g (ev_id ev) c' v', evs)) (recover_switch up c v (ev_timestamp ev))"
  using life_ofE [of g "ev_id ev" c v] by (simp add: recovery_switch_def)

lemma recovery_finish_put:
  "life_of g (ev_id ev) = Some (c, v) \<Longrightarrow> finish_probe c v d = (c', v')
   \<Longrightarrow> recovery_finish g ev d = put_life g (ev_id ev) c' v'"
  using life_ofE [of g "ev_id ev" c v] by (simp add: recovery_finish_def)

lemma globals_invD:
  assumes "globals_inv g" "real_sensor i"
  obtains c v where "life_of g i = Some (c, v)" "ctx_id c = i" "life_inv (c, v)"
    "redundant_id c = sensor_redundant_pair i"
proof -
  have "i \<in> set pair_order" using assms(2) by (simp add: pair_order_real)
  then show ?thesis using assms(1) that by (auto simp: c_inv)
qed

section \<open>Properties\<close>

lemma life_latched:
  "permanent_fail v \<Longrightarrow> state c = STATE_EXCLUDED
   \<Longrightarrow> state (fst (life_run es (c, v))) = STATE_EXCLUDED \<and> snd (life_run es (c, v)) = v"
proof (induction es arbitrary: c)
  case (Cons e es)
  have "state (fst (life_step e (c, v))) = STATE_EXCLUDED \<and> snd (life_step e (c, v)) = v"
    using Cons.prems by (cases e) (auto simp: evaluate_on_owned needs_recovery_def recover_on_def recover_switch_def)
  then show ?case using Cons.IH [of "fst (life_step e (c, v))"] Cons.prems(1)
    by (cases "life_step e (c, v)") auto
qed simp

lemma life_evaluated_only:
  "out_of_service c \<Longrightarrow> list_all (\<lambda>e. \<not> recovers e) es
   \<Longrightarrow> state (fst (life_run es (c, v))) = state c \<and> snd (life_run es (c, v)) = v"
proof (induction es arbitrary: c)
  case (Cons e es)
  then obtain d where e: "life_step e (c, v) = (c\<lparr>last_fault := d\<rparr>, v)"
    by (cases e) (auto simp: evaluate_on_owned out_of_service_def)
  then show ?case using Cons.IH [of "c\<lparr>last_fault := d\<rparr>"] Cons.prems by (simp add: out_of_service_def)
qed simp

text \<open>The messages of a sensor whose fault lasts: it is probed, and rejected, again and again.\<close>

definition rejections :: "bool \<Rightarrow> fault_type \<Rightarrow> u64 list \<Rightarrow> life_event list" where
  "rejections up d ts = concat (map (\<lambda>t. [Recovered up d t, Recovered up d t]) ts)"

lemma silent_detect:
  "sample_count b = 0 \<Longrightarrow> fdi_detect (Some c) (Some b) r t = FAULT_DELAYED"
  by (simp add: fdi_detect_def check_delayed_def sensor_buffer_count_def)

lemma life_rejected:
  "d \<noteq> FAULT_NONE \<Longrightarrow> state c = STATE_EXCLUDED \<Longrightarrow> unused_sup v
   \<Longrightarrow> state (fst (life_run (rejections up d ts) (c, v))) = STATE_EXCLUDED
     \<and> unused_sup (snd (life_run (rejections up d ts) (c, v)))"
proof (induction ts arbitrary: c v)
  case (Cons t ts)
  obtain c1 v1 where l: "life_run [Recovered up d t, Recovered up d t] (c, v) = (c1, v1)" by fastforce
  have "state c1 = STATE_EXCLUDED" "unused_sup v1"
    using failed_probe_cycle [OF Cons.prems(2,3) _ Cons.prems(1), of t t up d] l
    by (simp_all add: life_state_def RECOVERY_TIMEOUT_US_def)
  then show ?case using Cons.IH [OF Cons.prems(1)] l by (simp add: rejections_def)
qed (simp add: rejections_def)

text \<open>A sensor as \<open>main\<close> starts it, and one that is being probed since time 0.\<close>

definition fresh_life :: sensor_life where
  "fresh_life = (ctx_in SENSOR_US1 STATE_HEALTHY, zero_sup)"

lemma fresh_life_simps [simp]: "life_inv fresh_life" "life_state fresh_life = STATE_HEALTHY"
  by (simp_all add: fresh_life_def life_inv_def ctx_in_inv zero_sup_inv life_state_def)

lemma zero_sup_unused [simp]: "unused_sup zero_sup"
  by (simp add: unused_sup_def zero_sup_def)




lemma good_probes:
  "state (fst (life_run (replicate 4 (Recovered False FAULT_NONE 2000))
     (ctx_in SENSOR_US1 STATE_EXCLUDED, zero_sup))) = STATE_HEALTHY"
  by code_simp


text \<open>
  The detector leaves the recovery thread's states alone. While a sensor is out of service, any
  number of evaluations changes neither its state nor its supervision record.
\<close>

lemma detector_leaves_recovery_alone:
  assumes "needs_recovery (state c)" "list_all (\<lambda>e. \<not> recovers e) es"
  shows "state (fst (life_run es (c, v))) = state c \<and> snd (life_run es (c, v)) = v"
  using life_evaluated_only [of c es v] assms by (simp add: out_of_service_def)


text \<open>
  C33. A probe that times out is never left. Once a sensor has been PROBING or VALIDATING for more
  than 2 s, no later message or evaluation changes its state: the timeout branch calls
  \<open>fdi_isolate\<close>, which acts on FAULTED sensors only, so the sensor is neither excluded again
  nor readmitted, each message counts one more attempt, and the fifth latches the permanent failure.
\<close>

theorem expired_probe_never_left:
  assumes "state c = STATE_PROBING \<or> state c = STATE_VALIDATING"
    and "unat (probe_started_us v) + 2000000 < unat t" "\<forall>e\<in>set es. t \<le> life_time e"
  shows "state (fst (life_run es (c, v))) = state c
    \<and> attempts (snd (life_run es (c, v))) = attempts v + int (length (filter recovers es))
    \<and> (0 \<le> attempts v \<and> 5 \<le> length (filter recovers es) \<longrightarrow> permanent_fail (snd (life_run es (c, v))))"
  using life_timeout [of c v t es] assms by (auto simp: probing_def expired_def)

theorem expired_probe_never_left_witness:
  "state (fst (life_run (replicate 7 (Recovered False FAULT_NONE 2000001))
     (ctx_in SENSOR_US1 STATE_PROBING, zero_sup))) = STATE_PROBING
   \<and> permanent_fail (snd (life_run (replicate 7 (Recovered False FAULT_NONE 2000001))
     (ctx_in SENSOR_US1 STATE_PROBING, zero_sup)))"
  using expired_probe_never_left [of "ctx_in SENSOR_US1 STATE_PROBING" zero_sup 2000001
      "replicate 7 (Recovered False FAULT_NONE 2000001)"]
  by (simp add: zero_sup_def filter_replicate)

text \<open>
  C37. The supervision record never holds a probe back. From the start, with times that do not go
  backwards, whenever a sensor is EXCLUDED its attempt count and its back-off time are 0 and it is
  not latched: the back-off and the permanent latch of the recovery thread act on sensors that are
  stuck in a probe only, never on the decision to probe.
\<close>

theorem supervision_unused:
  assumes "state c = STATE_HEALTHY" "sorted (map life_time es)"
    and "state (fst (life_run es (c, zero_sup))) = STATE_EXCLUDED"
  shows "attempts (snd (life_run es (c, zero_sup))) = 0
    \<and> next_probe_us (snd (life_run es (c, zero_sup))) = 0
    \<and> \<not> permanent_fail (snd (life_run es (c, zero_sup)))"
proof -
  have "sup_clean (c, zero_sup) 0" using assms(1) by (simp add: sup_clean_def probing_def)
  moreover have "sorted (0 # map life_time es)" using assms(2) by simp
  ultimately have "sup_clean (life_run es (c, zero_sup)) (last (0 # map life_time es))"
    by (rule life_run_sup_clean)
  then show ?thesis using assms(3) by (auto simp: sup_clean_def probing_def unused_sup_def)
qed

lemma silent_excluded:
  "state (fst (life_run (replicate 3 (Evaluated FAULT_DELAYED 700000)) (ctx_in SENSOR_US1 STATE_HEALTHY, zero_sup)))
   = STATE_EXCLUDED"
  by code_simp

theorem supervision_unused_witness:
  "attempts (snd (life_run (replicate 3 (Evaluated FAULT_DELAYED 700000))
     (ctx_in SENSOR_US1 STATE_HEALTHY, zero_sup))) = 0"
  using supervision_unused [of "ctx_in SENSOR_US1 STATE_HEALTHY" "replicate 3 (Evaluated FAULT_DELAYED 700000)"]
    silent_excluded by simp

text \<open>
  Failed probes are not counted. A sensor whose fault lasts is excluded, probed and rejected in a
  cycle that never ends: after any number of such cycles it is EXCLUDED with an unused supervision
  record, so that the limit of five attempts does not apply to it.
\<close>

lemma failed_probes_uncounted:
  assumes "d \<noteq> FAULT_NONE" "state c = STATE_EXCLUDED"
    and "attempts v = 0" "next_probe_us v = 0" "\<not> permanent_fail v"
  shows "state (fst (life_run (rejections up d ts) (c, v))) = STATE_EXCLUDED
    \<and> attempts (snd (life_run (rejections up d ts) (c, v))) = 0
    \<and> \<not> permanent_fail (snd (life_run (rejections up d ts) (c, v)))"
  using life_rejected [of d c v up ts] assms by (simp add: unused_sup_def)

text \<open>
  The permanent latch. A sensor that is EXCLUDED and latched stays EXCLUDED, with its record
  unchanged, under every sequence of evaluations and recovery messages.
\<close>

lemma permanent_latch:
  assumes "permanent_fail v" "state c = STATE_EXCLUDED"
  shows "state (fst (life_run es (c, v))) = STATE_EXCLUDED \<and> snd (life_run es (c, v)) = v"
  by (rule life_latched [OF assms])


text \<open>
  The back-off. A timeout before the fifth sets the next probe 1, 2, 4 or 8 s after the
  message, doubling with each attempt, so that the cap of 30 s is never reached; the fifth latches
  the sensor instead and leaves the back-off time as it was.
\<close>

lemma backoff_doubles:
  assumes "0 \<le> attempts v" "abandon_probe up c v now = (c', v', evs)"
  shows "attempts v' = attempts v + 1
    \<and> (if attempts v < 4
        then next_probe_us v' = now + 1000000 * 2 ^ nat (attempts v) \<and> permanent_fail v' = permanent_fail v
        else next_probe_us v' = next_probe_us v \<and> permanent_fail v')"
proof (cases "attempts v < 4")
  case True
  note b = backoff_value [OF assms(1) True]
  show ?thesis
    using assms True b by (auto simp: abandon_probe_def Let_def RECOVERY_MAX_ATTEMPTS_def add.commute split: if_splits)
next
  case False
  then show ?thesis using assms by (auto simp: abandon_probe_def Let_def RECOVERY_MAX_ATTEMPTS_def)
qed



definition sent :: "sensor_id \<Rightarrow> sensor_state \<Rightarrow> fault_event" where
  "sent i s = event_of (ctx_in i s) 1000 0 0"


end
