(* ===== verification/Fusion_Safety.thy ===== *)
theory Fusion_Safety
  imports Fusion
begin

text \<open>
  Bounds on the estimate of \<open>src/fusion.c\<close>. Interval lemmas carry a range through each float
  operation by monotonicity, with the end points evaluated; the contributor lemmas connect the
  estimate to the sensor states and the ages of the samples.
\<close>

section \<open>Intervals of floats\<close>

definition between :: "int \<Rightarrow> int \<Rightarrow> f32 \<Rightarrow> bool" where
  "between lo hi x = (\<exists>n. x = FFin n \<and> lo \<le> n \<and> n \<le> hi)"

lemma between_le: "f32_le (FFin lo) x \<Longrightarrow> f32_le x (FFin hi) \<Longrightarrow> between lo hi x"
  by (cases x) (auto simp: between_def f32_le_def)

lemma betweenD: "between lo hi x \<Longrightarrow> f32_le (FFin lo) x" "between lo hi x \<Longrightarrow> f32_le x (FFin hi)"
  by (auto simp: between_def)

lemma between_weaken: "between lo hi x \<Longrightarrow> lo' \<le> lo \<Longrightarrow> hi \<le> hi' \<Longrightarrow> between lo' hi' x"
  by (auto simp: between_def)

lemma f32_round_0 [simp]: "0 < q \<Longrightarrow> f32_round 0 q = f32_0"
  by (simp add: f32_round_def f32_of_units_def round_signed_def f32_max_units_def)

lemma f32_round_nonneg: "0 < q \<Longrightarrow> 0 \<le> p \<Longrightarrow> f32_le f32_0 (f32_round p q)"
  using f32_round_mono [of q q 0 p] by simp

lemma between_add:
  assumes "between 0 A x" "between 0 B y" "f32_add (FFin A) (FFin B) = FFin C"
  shows "between 0 C (f32_add x y)"
proof -
  obtain a b where ab: "x = FFin a" "y = FFin b" "0 \<le> a" "a \<le> A" "0 \<le> b" "b \<le> B"
    using assms by (auto simp: between_def)
  have "f32_le (f32_add x y) (FFin C)"
    using f32_add_mono [of a A b B] ab assms(3) by simp
  moreover have "f32_le f32_0 (f32_add x y)" using ab by (simp add: f32_round_nonneg)
  ultimately show ?thesis by (intro between_le)
qed

lemma between_mul:
  assumes "between 0 A x" "between 0 B y" "f32_mul (FFin A) (FFin B) = FFin C"
  shows "between 0 C (f32_mul x y)"
proof -
  obtain a b where ab: "x = FFin a" "y = FFin b" "0 \<le> a" "a \<le> A" "0 \<le> b" "b \<le> B"
    using assms by (auto simp: between_def)
  have "f32_le (f32_round (a * b) f32_one_units) (f32_round (A * B) f32_one_units)"
    using ab by (intro f32_round_mono mult_right_mono mult_mono) auto
  moreover have "f32_le f32_0 (f32_mul x y)" using ab by (simp add: f32_round_nonneg)
  ultimately show ?thesis using ab assms(3) by (intro between_le) simp_all
qed

lemma between_div:
  assumes "between 0 A x" "between b B y" "0 < b" "f32_div (FFin A) (FFin b) = FFin C"
  shows "between 0 C (f32_div x y)"
proof -
  obtain a d where ad: "x = FFin a" "y = FFin d" "0 \<le> a" "a \<le> A" "b \<le> d"
    using assms by (auto simp: between_def)
  have d: "0 < d" using assms(3) ad by simp
  have "a * f32_one_units * b \<le> A * f32_one_units * d"
    using ad d assms(3) by (intro mult_mono) auto
  then have "f32_le (f32_round (a * f32_one_units) d) (f32_round (A * f32_one_units) b)"
    using d assms(3) by (intro f32_round_mono) auto
  moreover have "f32_le f32_0 (f32_div x y)" using ad d by (simp add: f32_round_nonneg)
  ultimately show ?thesis using ad d assms(3,4) by (intro between_le) simp_all
qed

lemma between_sqrt:
  assumes "between 0 A x" "f32_sqrt (FFin A) = FFin C"
  shows "between 0 C (f32_sqrt x)"
proof -
  obtain a where a: "x = FFin a" "0 \<le> a" "a \<le> A" using assms by (auto simp: between_def)
  have "f32_sqrt f32_0 = f32_0" by (simp add: isqrt.simps)
  then have "f32_le f32_0 (f32_sqrt x)" using f32_sqrt_mono [of 0 a] a by simp
  moreover have "f32_le (f32_sqrt x) (FFin C)" using f32_sqrt_mono [of a A] a assms(2) by simp
  ultimately show ?thesis by (intro between_le)
qed

lemma f32_le_zero_sub:
  assumes "0 \<le> n" "x = FFin m" "f32_ok x"
  shows "f32_le (f32_sub x (FFin n)) x"
proof -
  have "f32_le (f32_sub (FFin m) (FFin n)) (f32_sub (FFin m) f32_0)"
    using assms by (intro f32_sub_mono) simp_all
  moreover have "f32_sub (FFin m) f32_0 = FFin m"
    using f32_round_id [of m] assms by (simp add: f32_sub_def)
  ultimately show ?thesis using assms(2) by simp
qed

section \<open>Constants\<close>

definition cm_units :: int where "cm_units = 2 ^ 149"

lemma fusion_constants:
  "PAIR_DISAGREE_CM = FFin (20 * 2 ^ 149)" "ZONE_SAFE_CM = FFin (100 * 2 ^ 149)"
  "ZONE_NORMAL_CM = FFin (60 * 2 ^ 149)" "ZONE_CAUTION_CM = FFin (30 * 2 ^ 149)"
  "ZONE_SLOW_CM = FFin (15 * 2 ^ 149)" "US_BASE_UNCERTAINTY_CM = FFin (2 * 2 ^ 149)"
  "SUSPECT_UNCERTAINTY_MULT = FFin (3 * 2 ^ 149)" "SINGLE_UNCERTAINTY_MULT = FFin (5 * 2 ^ 148)"
  "HOLDOVER_GROWTH_CM_PER_S = FFin (25 * 2 ^ 149)" "f32_1e6 = FFin (1000000 * 2 ^ 149)"
  "f32_lit 1 2 = FFin (2 ^ 148)" "f32_lit 1 1 = FFin (2 ^ 149)"
  "f32_mul (FFin (2 * 2 ^ 149)) SUSPECT_UNCERTAINTY_MULT = FFin (6 * 2 ^ 149)"
  by code_simp+

text \<open>The weights of a healthy and of a suspect contributor.\<close>

definition w_healthy :: int where "w_healthy = 2 ^ 147"
definition w_suspect :: int where "w_suspect = 19822884768608108990800179898332661369798656"

lemma weight_values:
  "f32_div (f32_lit 1 1) (f32_mul (FFin (2 * 2 ^ 149)) (FFin (2 * 2 ^ 149))) = FFin w_healthy"
  "f32_div (f32_lit 1 1) (f32_mul (FFin (6 * 2 ^ 149)) (FFin (6 * 2 ^ 149))) = FFin w_suspect"
  by code_simp+

lemma suspect_sigma: "f32_mul US_BASE_UNCERTAINTY_CM SUSPECT_UNCERTAINTY_MULT = FFin (6 * 2 ^ 149)"
  by code_simp

section \<open>Contributors\<close>

text \<open>
  A contributor is present exactly when its sensor is healthy or suspect and its newest sample
  is at most 300 ms old; its distance is then the sample's.
\<close>

definition range_ctx :: "sensor_manager \<Rightarrow> fdi_context \<Rightarrow> bool" where
  "range_ctx m x = (mgr_inv m \<and> ctx_id x \<in> {SENSOR_US1, SENSOR_US2})"

definition newest_range :: "sensor_manager \<Rightarrow> fdi_context \<Rightarrow> (u64 \<times> f32 list) option" where
  "newest_range m x = Option.bind (mgr_buffer m (ctx_id x)) latest_entry"

definition fresh :: "u64 \<Rightarrow> u64 \<Rightarrow> bool" where
  "fresh now t = (unat now \<le> unat t + 300000)"

lemma sample_age_fresh: "(sample_age now s > STALE_SAMPLE_US) = (\<not> fresh now (timestamp_us s))"
  by (auto simp: sample_age_def STALE_SAMPLE_US_def fresh_def word_less_nat_alt unat_sub word_le_nat_alt)

lemma range_buffer:
  assumes "range_ctx m x"
  obtains b where "mgr_buffer m (ctx_id x) = Some b" "holds_only range_entry b"
  using assms by (auto simp: range_ctx_def mgr_inv_def)

lemma ring_last_entry:
  assumes "holds_only P b" "ring_of b \<noteq> []"
  shows "P (time_values (reading_of (last (ring_of b))))"
    and "latest_entry b = Some (time_values (reading_of (last (ring_of b))))"
proof -
  have "buffer_inv b" using assms(1) by (simp add: holds_only_def)
  then show "latest_entry b = Some (time_values (reading_of (last (ring_of b))))"
    using assms(2) by (simp add: latest_entry_def get_latest_eq)
  have "time_values (reading_of (last (ring_of b))) \<in> set (map time_values (history b))"
    using assms(2) by (simp add: history_def)
  then show "P (time_values (reading_of (last (ring_of b))))"
    using assms(1) by (simp only: holds_only_def)
qed

lemma value_0_of_range:
  assumes "range_entry (time_values (reading_of s))"
  shows "value s ! 0 = hd (rd_values (reading_of s))"
proof -
  define n where "n = unat (value_count s)"
  obtain x where "take n (value s) = [x]"
    using assms by (auto simp: range_entry_def reading_of_def n_def)
  then have "value s ! 0 = hd (take n (value s))" by (cases "value s"; cases n) simp_all
  then show ?thesis by (simp add: reading_of_def n_def)
qed

lemma read_contributor_eq:
  assumes "range_ctx m x"
  shows "case newest_range m x of
      None \<Rightarrow> \<not> present (read_contributor m x now)
    | Some (t, vs) \<Rightarrow>
        (if state_is_usable (state x) \<and> fresh now t
         then present (read_contributor m x now) \<and> cm (read_contributor m x now) = hd vs
           \<and> sigma_cm (read_contributor m x now)
             = (if state x = STATE_SUSPECT then FFin (6 * 2 ^ 149) else FFin (2 * 2 ^ 149))
         else \<not> present (read_contributor m x now))"
proof -
  obtain b where b: "mgr_buffer m (ctx_id x) = Some b" "holds_only range_entry b"
    using range_buffer [OF assms] by blast
  have inv: "buffer_inv b" using b(2) by (simp add: holds_only_def)
  show ?thesis
  proof (cases "ring_of b = []")
    case True
    then show ?thesis
      using inv b(1) by (simp add: newest_range_def latest_entry_def get_latest_eq read_contributor_def
          zero_contrib_def)
  next
    case False
    let ?s = "last (ring_of b)"
    have v: "value ?s ! 0 = hd (rd_values (reading_of ?s))"
      using ring_last_entry(1) [OF b(2) False] by (rule value_0_of_range)
    show ?thesis
      using False inv b(1) ring_last_entry(2) [OF b(2) False] v
      by (auto simp: newest_range_def read_contributor_def get_latest_eq sample_age_fresh Let_def
          zero_contrib_def suspect_sigma reading_of_def) (simp_all add: fusion_constants(6))
  qed
qed

lemma contributor_present:
  assumes "range_ctx m x" "present (read_contributor m x now)"
  obtains t vs n where "newest_range m x = Some (t, vs)" "vs = [FFin n]" "fresh now t"
    "state_is_usable (state x)" "f32_ok (FFin n)" "0 < n" "n \<le> 500 * 2 ^ 149"
    "cm (read_contributor m x now) = FFin n"
    "weight (read_contributor m x now) = FFin (if state x = STATE_SUSPECT then w_suspect else w_healthy)"
    "sigma_cm (read_contributor m x now)
      = (if state x = STATE_SUSPECT then FFin (6 * 2 ^ 149) else FFin (2 * 2 ^ 149))"
proof -
  note eq = read_contributor_eq [OF assms(1), of now]
  obtain t vs where n: "newest_range m x = Some (t, vs)"
    using eq assms(2) by (auto split: option.splits)
  then have u: "state_is_usable (state x)" "fresh now t" "cm (read_contributor m x now) = hd vs"
      "sigma_cm (read_contributor m x now)
        = (if state x = STATE_SUSPECT then FFin (6 * 2 ^ 149) else FFin (2 * 2 ^ 149))"
    using eq assms(2) by (auto split: if_splits)
  obtain b where b: "mgr_buffer m (ctx_id x) = Some b" "holds_only range_entry b"
    using range_buffer [OF assms(1)] by blast
  have "latest_entry b = Some (t, vs)" using n b(1) by (simp add: newest_range_def)
  moreover have "ring_of b \<noteq> []"
    using calculation b(2) by (auto simp: latest_entry_def get_latest_eq holds_only_def split: if_splits)
  ultimately have "range_entry (t, vs)" using ring_last_entry [OF b(2)] by simp
  then obtain y where y: "vs = [y]" "f32_ok y" "f32_lt f32_0 y" "f32_le y (FFin (500 * 2 ^ 149))"
    by (auto simp: range_entry_def distance_constants)
  then obtain k where k: "y = FFin k" "0 < k" "k \<le> 500 * 2 ^ 149"
    by (cases y) (auto simp: f32_le_def)
  have "weight (read_contributor m x now) = FFin (if state x = STATE_SUSPECT then w_suspect else w_healthy)"
    using u(4) weight_values by (auto simp: weight_def)
  with n y k u that show ?thesis by simp
qed

section \<open>The degradation ladder\<close>

definition contributing :: "sensor_manager \<Rightarrow> fdi_context \<Rightarrow> u64 \<Rightarrow> bool" where
  "contributing m x now = (state_is_usable (state x)
     \<and> (case newest_range m x of None \<Rightarrow> False | Some (t, _) \<Rightarrow> fresh now t))"

lemma present_iff:
  "range_ctx m x \<Longrightarrow> present (read_contributor m x now) = contributing m x now"
  using read_contributor_eq [of m x now] by (auto simp: contributing_def split: option.splits if_splits)

definition held :: "fusion_state \<Rightarrow> u64 \<Rightarrow> bool" where
  "held fs now = (have_last_good fs \<and> now - last_good_us fs \<le> HOLDOVER_MAX_US)"

definition ladder :: "bool \<Rightarrow> bool \<Rightarrow> bool \<Rightarrow> op_mode" where
  "ladder a b h = (if a \<and> b then OP_FULL else if a \<or> b then OP_DEGRADED_SINGLE
     else if h then OP_DEGRADED_HOLDOVER else OP_UNSAFE)"

lemma safe_edge_frame [simp]:
  "mode (safe_edge r) = mode r" "valid (safe_edge r) = valid r" "contributors (safe_edge r) = contributors r"
  "distance_cm (safe_edge r) = distance_cm r" "uncertainty_cm (safe_edge r) = uncertainty_cm r"
  "disagreement (safe_edge r) = disagreement r" "age_us (safe_edge r) = age_us r"
  by (simp_all add: safe_edge_def Let_def)

lemma fuse_pair_mode [simp]:
  "mode (fuse_pair a b) = OP_FULL" "valid (fuse_pair a b)" "contributors (fuse_pair a b) = 2"
  by (simp_all add: fuse_pair_def Let_def zero_result_def)

lemma fuse_single_mode [simp]:
  "mode (fuse_single a) = OP_DEGRADED_SINGLE" "valid (fuse_single a)" "contributors (fuse_single a) = 1"
  by (simp_all add: fuse_single_def zero_result_def)

lemma fuse_holdover_mode:
  "mode (snd (fuse_holdover fs acc now)) = (if held fs now then OP_DEGRADED_HOLDOVER else OP_UNSAFE)"
  "valid (snd (fuse_holdover fs acc now)) = held fs now"
  "contributors (snd (fuse_holdover fs acc now)) = 0"
  "\<not> held fs now \<Longrightarrow> fst (fuse_holdover fs acc now) = fs"
  by (auto simp: fuse_holdover_def held_def Let_def zero_result_def not_le not_less)

lemma fusion_combine_cases:
  assumes "fusion_combine fs a b acc now = (fs', out)"
  obtains (pair) "present a" "present b" "out = safe_edge (fuse_pair a b)" "fs' = note_good (distance_cm out) now fs"
    | (single) c where "c \<in> {a, b}" "present c" "present a \<noteq> present b"
      "out = safe_edge (fuse_single c)" "fs' = note_good (distance_cm out) now fs"
    | (hold) "\<not> present a" "\<not> present b" "held fs now" "fs' = fst (fuse_holdover fs acc now)"
      "out = safe_edge (snd (fuse_holdover fs acc now))"
    | (lost) "\<not> present a" "\<not> present b" "\<not> held fs now" "fs' = fs" "out = snd (fuse_holdover fs acc now)"
proof -
  let ?h = "fuse_holdover fs acc now"
  consider "present a \<and> present b" | "present a \<noteq> present b" | "\<not> present a \<and> \<not> present b" by blast
  then show ?thesis
  proof cases
    case 1
    then show ?thesis using assms by (intro pair) (auto simp: fusion_combine_def Let_def)
  next
    case 2
    then show ?thesis using assms by (intro single [of "if present a then a else b"]) (auto simp: fusion_combine_def Let_def)
  next
    case 3
    have h: "fs' = fst ?h" "out = (if held fs now then safe_edge (snd ?h) else snd ?h)"
      using 3 assms fuse_holdover_mode(1) [of fs acc now]
      by (auto simp: fusion_combine_def Let_def split: prod.splits if_splits)
    show ?thesis
    proof (cases "held fs now")
      case True
      then show ?thesis using 3 h by (intro hold) auto
    next
      case False
      then show ?thesis using 3 h fuse_holdover_mode(4) [OF False] by (intro lost) auto
    qed
  qed
qed

lemma fusion_compute_cases:
  assumes "fusion_compute fs m x1 x2 x3 x4 now = (fs', out)"
  obtains (pair) "present (read_contributor m x1 now)" "present (read_contributor m x2 now)"
      "out = safe_edge (fuse_pair (read_contributor m x1 now) (read_contributor m x2 now))"
      "fs' = note_good (distance_cm out) now fs"
    | (single) x where "x \<in> {x1, x2}" "present (read_contributor m x now)"
      "present (read_contributor m x1 now) \<noteq> present (read_contributor m x2 now)"
      "out = safe_edge (fuse_single (read_contributor m x now))"
      "fs' = note_good (distance_cm out) now fs"
    | (hold) "\<not> present (read_contributor m x1 now)" "\<not> present (read_contributor m x2 now)" "held fs now"
      "fs' = fst (fuse_holdover fs (read_long_accel m x3 x4 now) now)"
      "out = safe_edge (snd (fuse_holdover fs (read_long_accel m x3 x4 now) now))"
    | (lost) "\<not> present (read_contributor m x1 now)" "\<not> present (read_contributor m x2 now)" "\<not> held fs now"
      "fs' = fs" "out = snd (fuse_holdover fs (read_long_accel m x3 x4 now) now)"
  using assms unfolding fusion_compute_def Let_def
  by (cases rule: fusion_combine_cases) (blast intro: that)+

lemma combine_ladder:
  assumes "fusion_combine fs a b acc now = (fs', out)"
  shows "mode out = ladder (present a) (present b) (held fs now) \<and> valid out = (mode out \<noteq> OP_UNSAFE)
    \<and> contributors out = of_bool (present a) + of_bool (present b)"
  using assms by (cases rule: fusion_combine_cases) (auto simp: ladder_def fuse_holdover_mode)

lemma fusion_ladder:
  assumes "range_ctx m x1" "range_ctx m x2" "fusion_compute fs m x1 x2 x3 x4 now = (fs', out)"
  shows "mode out = ladder (contributing m x1 now) (contributing m x2 now) (held fs now)
    \<and> valid out = (mode out \<noteq> OP_UNSAFE)
    \<and> contributors out = of_bool (contributing m x1 now) + of_bool (contributing m x2 now)"
  using combine_ladder [OF assms(3) [unfolded fusion_compute_def Let_def]]
  by (simp add: present_iff [OF assms(1)] present_iff [OF assms(2)])

section \<open>Ranges of the estimate\<close>

text \<open>The weighted mean of two readings of 500 cm, for every pair of weights.\<close>

lemma mean_values:
  "f32_div (f32_add (f32_mul (FFin (500 * 2 ^ 149)) (FFin w_healthy)) (f32_mul (FFin (500 * 2 ^ 149)) (FFin w_healthy)))
     (f32_add (FFin w_healthy) (FFin w_healthy)) = FFin (500 * 2 ^ 149)"
  by code_simp

definition range_contrib :: "contrib \<Rightarrow> bool" where
  "range_contrib c = (\<exists>n w s. cm c = FFin n \<and> 0 < n \<and> n \<le> 500 * 2 ^ 149 \<and> f32_ok (FFin n)
     \<and> (w, s) \<in> {(w_healthy, 2 * 2 ^ 149), (w_suspect, 6 * 2 ^ 149)}
     \<and> weight c = FFin w \<and> sigma_cm c = FFin s)"

lemma contributor_range:
  assumes "range_ctx m x" "present (read_contributor m x now)"
  shows "range_contrib (read_contributor m x now)"
proof -
  obtain n where "f32_ok (FFin n)" "0 < n" "n \<le> 500 * 2 ^ 149" "cm (read_contributor m x now) = FFin n"
    "weight (read_contributor m x now) = FFin (if state x = STATE_SUSPECT then w_suspect else w_healthy)"
    "sigma_cm (read_contributor m x now)
      = (if state x = STATE_SUSPECT then FFin (6 * 2 ^ 149) else FFin (2 * 2 ^ 149))"
    by (rule contributor_present [OF assms])
  then show ?thesis
    unfolding range_contrib_def
    by (intro exI [of _ n] exI [of _ "if state x = STATE_SUSPECT then w_suspect else w_healthy"]
        exI [of _ "if state x = STATE_SUSPECT then 6 * 2 ^ 149 else 2 * 2 ^ 149"]) (simp del: f32_ok.simps)
qed

text \<open>What \<open>fusion_compute\<close> reads is absent or a range in (0, 500] cm.\<close>

definition contrib_ok :: "contrib \<Rightarrow> bool" where
  "contrib_ok c = (present c \<longrightarrow> range_contrib c)"

lemma contrib_okD: "contrib_ok c \<Longrightarrow> present c \<Longrightarrow> range_contrib c"
  by (simp add: contrib_ok_def)

lemma read_contrib_ok: "range_ctx m x \<Longrightarrow> contrib_ok (read_contributor m x now)"
  by (simp add: contrib_ok_def contributor_range)

section \<open>Rounding errors of an agreeing pair\<close>

text \<open>Below 1024 cm a rounding moves the value by at most \<open>2^-14\<close> cm.\<close>

lemma round_mag_err:
  assumes "0 < q" "0 \<le> p" "p \<le> 2 ^ 159 * q"
  shows "\<bar>round_mag p q * q - p\<bar> \<le> 2 ^ 135 * q"
proof -
  let ?u = "ulp_unit p q"
  consider "?u = 1" | "16777216 * (q * ?u) \<le> 2 * p"
    using ulp_unit_spec [OF assms(1), of p] by auto
  then have "q * ?u \<le> 2 ^ 136 * q"
  proof cases
    case 1
    then show ?thesis using assms(1) by simp
  next
    case 2
    have "p \<le> 8388608 * (2 ^ 136 * q)" using assms(3) by simp
    with 2 show ?thesis by linarith
  qed
  moreover have "0 < q * ?u" using assms by simp
  note rne_bounds [OF this, of p]
  ultimately show ?thesis by (simp add: round_mag_def Let_def abs_le_iff algebra_simps)
qed

lemma f32_round_err:
  assumes "0 < q" "\<bar>p\<bar> \<le> 2 ^ 159 * q"
  obtains n where "f32_round p q = FFin n" "\<bar>n * q - p\<bar> \<le> 2 ^ 135 * q"
proof -
  have e: "\<bar>round_mag \<bar>p\<bar> q * q - \<bar>p\<bar>\<bar> \<le> 2 ^ 135 * q"
    using assms by (intro round_mag_err) auto
  then have "\<bar>round_signed p q * q - p\<bar> \<le> 2 ^ 135 * q" by (auto simp: round_signed_def)
  moreover have "round_mag \<bar>p\<bar> q * q < f32_max_units * q"
  proof -
    have "round_mag \<bar>p\<bar> q * q \<le> (2 ^ 159 + 2 ^ 135) * q" using e assms(2) unfolding distrib_right by linarith
    also have "\<dots> < f32_max_units * q" using assms by (simp add: f32_max_units_def)
    finally show ?thesis .
  qed
  then have "\<bar>round_signed p q\<bar> < f32_max_units" using assms(1) by (simp add: round_signed_mag)
  ultimately show ?thesis by (intro that [of "round_signed p q"]) (auto simp: f32_round_def f32_of_units_def)
qed
lemma mean_bound:
  assumes "a \<ge> 0" "b \<ge> 0" "a \<le> 500 * 2 ^ 149" "b \<le> 500 * 2 ^ 149" "w = w_healthy \<or> w = w_suspect"
  obtains d where "f32_div (f32_add (f32_mul (FFin a) (FFin w)) (f32_mul (FFin b) (FFin w)))
     (f32_add (FFin w) (FFin w)) = FFin d" "2 * d \<le> a + b + 2 ^ 143"
proof -
  have w: "f32_add (FFin w) (FFin w) = FFin (2 * w)" "0 < w" "w \<le> 2 ^ 147" "w_suspect \<le> w"
    using assms(5) by (elim disjE; hypsubst; code_simp)+
  have prod: "0 \<le> k * w \<and> k * w \<le> 2 ^ 156 * f32_one_units" if "0 \<le> k" "k \<le> 500 * 2 ^ 149" for k
  proof -
    have "k * w \<le> (500 * 2 ^ 149) * 2 ^ 147" using that w by (intro mult_mono) auto
    then show ?thesis using that w(2) by (simp add: f32_one_units_def)
  qed
  obtain x where x: "f32_mul (FFin a) (FFin w) = FFin x" "\<bar>x * f32_one_units - a * w\<bar> \<le> 2 ^ 135 * f32_one_units"
    using f32_round_err [of f32_one_units "a * w"] prod [of a] assms by (auto simp: f32_one_units_def)
  obtain y where y: "f32_mul (FFin b) (FFin w) = FFin y" "\<bar>y * f32_one_units - b * w\<bar> \<le> 2 ^ 135 * f32_one_units"
    using f32_round_err [of f32_one_units "b * w"] prod [of b] assms by (auto simp: f32_one_units_def)
  obtain z where z: "f32_add (FFin x) (FFin y) = FFin z" "\<bar>z - (x + y)\<bar> \<le> 2 ^ 135"
  proof -
    have "\<bar>x + y\<bar> \<le> 2 ^ 159 * 1"
      using x(2) y(2) prod [of a] prod [of b] assms by (simp add: f32_one_units_def abs_le_iff)
    from f32_round_err [OF _ this] that show ?thesis by auto
  qed
  have zw: "\<bar>z * f32_one_units\<bar> \<le> 2 ^ 159 * (2 * w)" using assms(5)
  proof
    assume w: "w = w_healthy"
    show ?thesis using x(2) y(2) z(2) assms(1-4) by (simp add: w w_healthy_def f32_one_units_def abs_le_iff)
  next
    assume w: "w = w_suspect"
    show ?thesis using x(2) y(2) z(2) assms(1-4) by (simp add: w w_suspect_def f32_one_units_def abs_le_iff)
  qed
  obtain d where d: "f32_div (FFin z) (FFin (2 * w)) = FFin d" "\<bar>d * (2 * w) - z * f32_one_units\<bar> \<le> 2 ^ 135 * (2 * w)"
    using f32_round_err [of "2 * w" "z * f32_one_units"] zw w by auto
  have "2 * d \<le> a + b + 2 ^ 143" using assms(5)
  proof
    assume w: "w = w_healthy"
    show ?thesis using x(2) y(2) z(2) d(2) by (simp add: w w_healthy_def f32_one_units_def abs_le_iff)
  next
    assume w: "w = w_suspect"
    show ?thesis using x(2) y(2) z(2) d(2) by (simp add: w w_suspect_def f32_one_units_def abs_le_iff)
  qed
  then show ?thesis using that [of d] w x z d y by simp
qed

text \<open>The spread and the uncertainty of an agreeing pair of equal weights.\<close>

lemma spread_bound:
  assumes "a \<ge> 0" "b \<ge> 0" "a \<le> 500 * 2 ^ 149" "b \<le> 500 * 2 ^ 149"
  obtains s where "f32_abs (f32_sub (FFin a) (FFin b)) = FFin s" "0 \<le> s"
    "\<bar>a - b\<bar> - 2 ^ 135 \<le> s" "s \<le> \<bar>a - b\<bar> + 2 ^ 135"
proof -
  obtain s where "f32_round (a - b) 1 = FFin s" "\<bar>s - (a - b)\<bar> \<le> 2 ^ 135"
    using f32_round_err [of 1 "a - b"] assms by (auto simp: abs_le_iff)
  then show ?thesis by (intro that [of "\<bar>s\<bar>"]) (auto simp: f32_sub_def)
qed

lemma half_bound:
  assumes "0 \<le> s" "s \<le> 501 * 2 ^ 149"
  obtains h where "f32_mul (FFin s) (f32_lit 1 2) = FFin h" "\<bar>2 * h - s\<bar> \<le> 2 ^ 136"
proof -
  obtain h where "f32_round (s * 2 ^ 148) f32_one_units = FFin h"
      "\<bar>h * f32_one_units - s * 2 ^ 148\<bar> \<le> 2 ^ 135 * f32_one_units"
    using f32_round_err [of f32_one_units "s * 2 ^ 148"] assms by (auto simp: f32_one_units_def)
  then show ?thesis
    by (intro that [of h]) (simp_all add: fusion_constants(11) f32_one_units_def abs_le_iff)
qed

text \<open>The deviation of the mean of two equal weights: 1.41 cm, or 4.24 cm.\<close>

lemma deviation_values:
  assumes "w = w_healthy \<or> w = w_suspect"
  obtains r where "f32_sqrt (f32_div (f32_lit 1 1) (f32_add (FFin w) (FFin w))) = FFin r"
    "2 ^ 149 \<le> r" "r \<le> 5 * 2 ^ 149"
proof -
  have "f32_sqrt (f32_div (f32_lit 1 1) (f32_add (FFin w_healthy) (FFin w_healthy)))
      = FFin 1009216504673232904412793275744242370726592512"
    "f32_sqrt (f32_div (f32_lit 1 1) (f32_add (FFin w_suspect) (FFin w_suspect)))
      = FFin 3027649428949106983003763961389075254237724672"
    by code_simp+
  with assms that show ?thesis by auto
qed

lemma equal_weight_edge:
  assumes ab: "a \<ge> 0" "b \<ge> 0" "a \<le> 500 * 2 ^ 149" "b \<le> 500 * 2 ^ 149"
    and cm: "cm x = FFin a" "cm y = FFin b"
    and w: "weight x = FFin w" "weight y = FFin w" "w = w_healthy \<or> w = w_suspect"
    and agree: "\<not> f32_gt (f32_abs (f32_sub (cm x) (cm y))) PAIR_DISAGREE_CM"
    and ok: "f32_ok (FFin a)" "f32_ok (FFin b)"
  shows "f32_le (safe_distance_cm (safe_edge (fuse_pair x y))) (FFin (min a b))"
proof -
  obtain d where d: "weighted_mean x y = FFin d" "2 * d \<le> a + b + 2 ^ 143"
    by (rule mean_bound [OF ab w(3)]) (simp add: weighted_mean_def w(1,2) cm)
  obtain s where s: "f32_abs (f32_sub (cm x) (cm y)) = FFin s" "0 \<le> s"
      "\<bar>a - b\<bar> - 2 ^ 135 \<le> s" "s \<le> \<bar>a - b\<bar> + 2 ^ 135"
    by (rule spread_bound [OF ab]) (simp add: cm)
  have "s \<le> 501 * 2 ^ 149" using s(4) ab by (simp add: abs_le_iff)
  then obtain h where h: "f32_mul (FFin s) (f32_lit 1 2) = FFin h" "\<bar>2 * h - s\<bar> \<le> 2 ^ 136"
    using half_bound [OF s(2)] by blast
  obtain r where r: "f32_sqrt (f32_div (f32_lit 1 1) (f32_add (FFin w) (FFin w))) = FFin r"
      "2 ^ 149 \<le> r" "r \<le> 5 * 2 ^ 149"
    by (rule deviation_values [OF w(3)])
  have "\<bar>r + h\<bar> \<le> 2 ^ 159 * 1" using r h(2) s(2) \<open>s \<le> 501 * 2 ^ 149\<close> by (simp add: abs_le_iff)
  from f32_round_err [OF _ this] obtain u where u: "f32_round (r + h) 1 = FFin u" "\<bar>u - (r + h)\<bar> \<le> 2 ^ 135"
    by auto
  have unc: "pair_uncertainty x y (FFin s) = FFin u"
    using u(1) r(1) h(1) by (simp add: pair_uncertainty_def w(1,2))
  have "d - u \<le> min a b"
  proof -
    have "2 * (d - u) \<le> a + b - \<bar>a - b\<bar>"
      using d(2) u(2) h(2) s(3) r(2) by (simp add: abs_le_iff)
    then show ?thesis by (simp add: min_def abs_if split: if_splits)
  qed
  then have "f32_le (f32_sub (FFin d) (FFin u)) (f32_round (min a b) 1)"
    by (auto simp: f32_sub_def intro!: f32_round_mono)
  moreover have "f32_round (min a b) 1 = FFin (min a b)"
    using ok by (intro f32_round_id) (simp add: min_def)
  ultimately show ?thesis
    using agree ab d(1) s(1) unc
    by (auto simp: safe_edge_def fuse_pair_def Let_def min_def)
qed

section \<open>The safe edge\<close>

lemma safe_edge_nonneg:
  assumes "between 0 A (distance_cm r)" "between 0 B (uncertainty_cm r)" "f32_ok (distance_cm r)"
  shows "f32_le f32_0 (safe_distance_cm (safe_edge r)) \<and> f32_le (safe_distance_cm (safe_edge r)) (distance_cm r)"
proof -
  obtain d u where du: "distance_cm r = FFin d" "uncertainty_cm r = FFin u" "0 \<le> d" "0 \<le> u"
    using assms by (auto simp: between_def)
  have "f32_le (f32_sub (FFin d) (FFin u)) (FFin d)"
    using assms(3) du by (intro f32_le_zero_sub) auto
  then show ?thesis using du
    by (auto simp: safe_edge_def Let_def f32_not_lt elim: f32_le_cases)
qed

lemma between_self: "0 \<le> n \<Longrightarrow> between 0 n (FFin n)"
  by (simp add: between_def)

lemma range_between: "range_contrib c \<Longrightarrow> between 0 (500 * 2 ^ 149) (cm c)"
  by (auto simp: range_contrib_def between_def)

lemma range_weights:
  "range_contrib c \<Longrightarrow> \<exists>w. weight c = FFin w \<and> w_suspect \<le> w \<and> w \<le> w_healthy"
  by (auto simp: range_contrib_def w_healthy_def w_suspect_def)

lemma mean_between:
  assumes "range_contrib a" "range_contrib b"
  shows "between 0 (500 * 2 ^ 149) (weighted_mean a b)"
proof -
  have *: "between 0 (500 * 2 ^ 149) (weighted_mean a b)"
    if "weight a = FFin v" "weight b = FFin w" "f32_mul (FFin (500 * 2 ^ 149)) (FFin v) = FFin V"
      "f32_mul (FFin (500 * 2 ^ 149)) (FFin w) = FFin W" "f32_add (FFin V) (FFin W) = FFin Z"
      "f32_add (FFin v) (FFin w) = FFin D" "f32_div (FFin Z) (FFin D) = FFin R" 
      "0 \<le> v" "0 \<le> w" "0 < D" "R \<le> 500 * 2 ^ 149" for v w V W Z D R
  proof -
    have "between 0 V (f32_mul (cm a) (FFin v))" "between 0 W (f32_mul (cm b) (FFin w))"
      using that(8,9) by (auto intro: between_mul [OF range_between [OF assms(1)] _ that(3)]
          between_mul [OF range_between [OF assms(2)] _ that(4)] simp: between_self)
    then have "between 0 Z (f32_add (f32_mul (cm a) (FFin v)) (f32_mul (cm b) (FFin w)))"
      by (rule between_add) (rule that)
    then have "between 0 R (f32_div (f32_add (f32_mul (cm a) (FFin v)) (f32_mul (cm b) (FFin w))) (FFin D))"
      using that by (intro between_div [where b = D and B = D]) (auto simp: between_def)
    then show ?thesis using that by (auto simp: weighted_mean_def intro: between_weaken)
  qed
  consider "weight a = FFin w_healthy" "weight b = FFin w_healthy"
    | "weight a = FFin w_healthy" "weight b = FFin w_suspect"
    | "weight a = FFin w_suspect" "weight b = FFin w_healthy"
    | "weight a = FFin w_suspect" "weight b = FFin w_suspect"
    using assms by (auto simp: range_contrib_def)
  then show ?thesis
  proof cases
    case 1
    show ?thesis by (rule * [OF 1]) code_simp+
  next
    case 2
    show ?thesis by (rule * [OF 2]) code_simp+
  next
    case 3
    show ?thesis by (rule * [OF 3]) code_simp+
  next
    case 4
    show ?thesis by (rule * [OF 4]) code_simp+
  qed
qed

lemma pair_range:
  assumes "range_contrib a" "range_contrib b"
  shows "between 0 (500 * 2 ^ 149) (distance_cm (fuse_pair a b))
    \<and> (\<exists>B. between 0 B (uncertainty_cm (fuse_pair a b))) \<and> f32_ok (distance_cm (fuse_pair a b))"
proof -
  obtain m n where mn: "cm a = FFin m" "cm b = FFin n" "0 < m" "0 < n" "m \<le> 500 * 2 ^ 149" "n \<le> 500 * 2 ^ 149"
    "f32_ok (FFin m)" "f32_ok (FFin n)"
    using assms by (auto simp: range_contrib_def simp del: f32_ok.simps)
  obtain s where s: "f32_abs (f32_sub (FFin m) (FFin n)) = FFin s" "0 \<le> s" "s \<le> \<bar>m - n\<bar> + 2 ^ 135"
    by (rule spread_bound [of m n]) (use mn in simp_all)
  have sb: "between 0 (501 * 2 ^ 149) (FFin s)" using s mn by (simp add: between_def abs_if split: if_splits)
  obtain v w where vw: "weight a = FFin v" "weight b = FFin w" "w_suspect \<le> v" "w_suspect \<le> w" "v \<le> w_healthy" "w \<le> w_healthy"
    using range_weights [OF assms(1)] range_weights [OF assms(2)] by blast
  have "between 0 (513 * 2 ^ 148) (pair_uncertainty a b (FFin s))"
    unfolding pair_uncertainty_def fusion_constants(12)
  proof (rule between_add)
    show "between 0 (6 * 2 ^ 149) (f32_sqrt (f32_div (FFin (2 ^ 149)) (f32_add (weight a) (weight b))))"
    proof (rule between_sqrt, rule between_div)
      have "between 0 (2 * w_healthy) (f32_add (weight a) (weight b))"
        unfolding vw(1,2)
      proof (rule between_add)
        show "between 0 w_healthy (FFin v)" "between 0 w_healthy (FFin w)"
          using vw by (simp_all add: between_def w_suspect_def)
      qed code_simp
      then obtain d where d: "f32_add (weight a) (weight b) = FFin d" "d \<le> 2 * w_healthy"
        by (auto simp: between_def)
      have "f32_le (f32_add (FFin w_suspect) (FFin 0)) (FFin d)"
        using f32_add_mono [of w_suspect v 0 w] vw d(1) by (simp add: w_suspect_def)
      moreover have "f32_add (FFin w_suspect) (FFin 0) = FFin w_suspect" by code_simp
      ultimately show "between w_suspect (2 * w_healthy) (f32_add (weight a) (weight b))"
        using d by (simp add: between_def)
    qed (rule between_self, simp, simp add: w_suspect_def, code_simp, code_simp)
    show "between 0 (501 * 2 ^ 148) (f32_mul (FFin s) (f32_lit 1 2))"
      unfolding fusion_constants(11) by (rule between_mul [OF sb between_self]) (simp, code_simp)
  qed code_simp
  then show ?thesis using s mn mean_between [OF assms] sb
    by (auto simp: fuse_pair_def Let_def zero_result_def between_def weighted_mean_def)
qed

lemma single_range:
  assumes "range_contrib c"
  shows "between 0 (500 * 2 ^ 149) (distance_cm (fuse_single c))
    \<and> (\<exists>B. between 0 B (uncertainty_cm (fuse_single c))) \<and> f32_ok (distance_cm (fuse_single c))"
proof -
  have "f32_mul (FFin (2 * 2 ^ 149)) SINGLE_UNCERTAINTY_MULT = FFin (5 * 2 ^ 149)"
    "f32_mul (FFin (6 * 2 ^ 149)) SINGLE_UNCERTAINTY_MULT = FFin (15 * 2 ^ 149)" by code_simp+
  then show ?thesis using assms 
    by (auto simp: fuse_single_def range_contrib_def between_def)
qed

end
