(* ===== verification/Fusion_Runs.thy ===== *)
theory Fusion_Runs
  imports Fusion_Safety Scenarios
begin

text \<open>
  The holdover of \<open>src/fusion.c\<close> over a sequence of cycles, the proximity zones of
  \<open>fusion_zone_name\<close>, and the properties of the estimate.
\<close>

section \<open>Holdover\<close>

definition not_neg :: "f32 \<Rightarrow> bool" where
  "not_neg x = (x = FNaN \<or> f32_le f32_0 x)"

lemma not_neg_cases: "not_neg x \<Longrightarrow> x = FNaN \<or> x = FInf False \<or> (\<exists>n. x = FFin n \<and> 0 \<le> n)"
  by (cases x) (auto simp: not_neg_def f32_le_def)

lemma not_neg_abs: "not_neg (f32_abs x)"
  by (cases x) (auto simp: not_neg_def f32_le_def)

lemma not_neg_mul: "not_neg x \<Longrightarrow> 0 \<le> n \<Longrightarrow> not_neg (f32_mul x (FFin n))"
  by (cases x) (auto simp: not_neg_def f32_le_def[of _ "FInf _"] intro: f32_round_nonneg)

text \<open>A value that is at most another, or not a number.\<close>

definition no_farther :: "f32 \<Rightarrow> f32 \<Rightarrow> bool" where
  "no_farther x y = (y = FNaN \<or> f32_le y x)"

lemma no_farther_trans: "no_farther x y \<Longrightarrow> no_farther y z \<Longrightarrow> no_farther x z"
  by (cases x; cases y; cases z) (auto simp: no_farther_def f32_le_def)

lemma no_farther_refl [simp]: "no_farther x x"
  by (cases x) (auto simp: no_farther_def f32_le_def)

lemma sub_not_neg_no_farther:
  assumes "f32_ok x" "not_neg y"
  shows "no_farther x (f32_sub x y)"
proof (cases x)
  case (FFin n)
  from not_neg_cases [OF assms(2)] show ?thesis
  proof (elim disjE exE conjE)
    fix m assume "y = FFin m" "0 \<le> m"
    then show ?thesis using f32_le_zero_sub [of m x n] FFin assms(1) by (simp add: no_farther_def)
  qed (simp_all add: FFin f32_sub_def no_farther_def f32_le_neg_inf)
next
  case (FInf b)
  then show ?thesis
    using assms(2) by (cases y) (auto simp: f32_sub_def not_neg_def f32_le_def no_farther_def)
qed (simp add: f32_sub_def no_farther_def)

lemma between_point: "between n n (FFin n)"
  by (simp add: between_def)

text \<open>Any \<open>uint64_t\<close> number of microseconds, in seconds.\<close>

lemma seconds_between: "between 0 (18446744 * 2 ^ 170) (f32_div (f32_of_int (uint k)) f32_1e6)"
  for k :: u64
proof -
  have "f32_le (f32_of_int (uint k)) (f32_of_int (2 ^ 64))" "f32_le (f32_of_int 0) (f32_of_int (uint k))"
    using uint_bounded [of k] by (auto intro!: f32_of_int_mono)
  moreover have "f32_of_int (2 ^ 64) = FFin (2 ^ 213)" "f32_of_int 0 = f32_0" by code_simp+
  ultimately have "between 0 (2 ^ 213) (f32_of_int (uint k))" by (metis between_le)
  then show ?thesis
    unfolding fusion_constants(10)
    by (rule between_weaken [OF between_div [OF _ between_point]]) (simp, code_simp, simp, code_simp)
qed

lemma integration_step_between: "between 0 (2 ^ 148) (integration_step now prev)"
  using seconds_between [of "now - prev"]
  by (auto simp: integration_step_def Let_def fusion_constants(11) between_def)

text \<open>The uncertainty of a held estimate grows with its age.\<close>

lemma f32_mul_commute: "f32_mul x y = f32_mul y x"
  by (cases x; cases y) (auto simp: mult.commute)

lemma holdover_growth:
  assumes "h \<le> k"
  shows "f32_le (holdover_uncertainty h) (holdover_uncertainty k)"
proof -
  define g where "g j = f32_mul (f32_div (f32_of_int (uint j)) f32_1e6) (FFin (25 * 2 ^ 149))" for j :: u64
  have "\<exists>n. g j = FFin n" for j
  proof -
    have "between 0 (2 ^ 200) (g j)" unfolding g_def
      by (rule between_weaken [OF between_mul [OF seconds_between between_self]]) (simp, code_simp, simp, code_simp)
    then show ?thesis by (auto simp: between_def)
  qed
  then obtain a b where ab: "g h = FFin a" "g k = FFin b" by blast
  have "uint h \<le> uint k" using assms by (simp add: word_le_def)
  then have "f32_le (g h) (g k)"
    unfolding g_def fusion_constants(10) by (intro f32_mul_mono f32_div_mono f32_of_int_mono) simp_all
  then have "f32_le (f32_add US_BASE_UNCERTAINTY_CM (g h)) (f32_add US_BASE_UNCERTAINTY_CM (g k))"
    unfolding ab fusion_constants(6) by (intro f32_add_mono) simp_all
  then show ?thesis
    by (simp only: holdover_uncertainty_def fusion_constants(9) f32_mul_commute [of "FFin (25 * 2 ^ 149)"] g_def)
qed

lemma holdover_state:
  assumes "fuse_holdover fs acc now = (fs', out)"
  shows "last_good_us fs' = last_good_us fs" "have_last_good fs' = have_last_good fs"
    and "f32_ok (last_good_cm fs) \<Longrightarrow> f32_ok (last_good_cm fs')"
    and "f32_ok (last_good_cm fs) \<Longrightarrow> no_farther (last_good_cm fs) (last_good_cm fs')"
    and "distance_cm out = (if held fs now \<and> \<not> f32_lt (last_good_cm fs') f32_0 then last_good_cm fs' else f32_0)"
proof -
  have step: "not_neg (f32_mul (f32_mul (f32_abs v) (integration_step now p)) (f32_lit 100 1))" for v p
  proof -
    obtain n where n: "integration_step now p = FFin n" "0 \<le> n"
      using integration_step_between by (auto simp: between_def)
    have "f32_lit 100 1 = FFin (100 * 2 ^ 149)" by code_simp
    then show ?thesis using n by (auto intro!: not_neg_mul not_neg_abs simp del: f32_mul.simps)
  qed
  note defs = fuse_holdover_def Let_def held_def zero_result_def not_less
  show "last_good_us fs' = last_good_us fs" "have_last_good fs' = have_last_good fs"
    using assms by (auto simp: defs split: if_splits option.splits)
  show "f32_ok (last_good_cm fs')" if "f32_ok (last_good_cm fs)"
    using assms that by (auto simp: defs split: if_splits option.splits)
  show "no_farther (last_good_cm fs) (last_good_cm fs')" if "f32_ok (last_good_cm fs)"
    using assms sub_not_neg_no_farther [OF that step]
    by (auto simp: defs split: if_splits option.splits)
  show "distance_cm out = (if held fs now \<and> \<not> f32_lt (last_good_cm fs') f32_0 then last_good_cm fs' else f32_0)"
    using assms by (auto simp: defs split: if_splits option.splits)
qed


section \<open>Sequences of cycles\<close>

text \<open>What one call of \<open>fusion_compute\<close> is given, and the calls of a run.\<close>

record fusion_input =
  in_mgr :: sensor_manager
  in_us1 :: fdi_context
  in_us2 :: fdi_context
  in_imu1 :: fdi_context
  in_imu2 :: fdi_context
  in_now :: u64

definition fusion_step :: "fusion_state \<Rightarrow> fusion_input \<Rightarrow> fusion_state \<times> fusion_result" where
  "fusion_step fs i = fusion_compute fs (in_mgr i) (in_us1 i) (in_us2 i) (in_imu1 i) (in_imu2 i) (in_now i)"

fun fusion_run :: "fusion_state \<Rightarrow> fusion_input list \<Rightarrow> fusion_state \<times> fusion_result list" where
  "fusion_run fs [] = (fs, [])"
| "fusion_run fs (i # is) =
     (let (fs1, out) = fusion_step fs i; (fs2, outs) = fusion_run fs1 is in (fs2, out # outs))"

definition input_ok :: "fusion_input \<Rightarrow> bool" where
  "input_ok i = (range_ctx (in_mgr i) (in_us1 i) \<and> range_ctx (in_mgr i) (in_us2 i))"

definition blind :: "fusion_input \<Rightarrow> bool" where
  "blind i = (\<not> contributing (in_mgr i) (in_us1 i) (in_now i) \<and> \<not> contributing (in_mgr i) (in_us2 i) (in_now i))"

lemma blind_step:
  assumes "input_ok i" "blind i" "fusion_step fs i = (fs', out)" "f32_ok (last_good_cm fs)"
  shows "last_good_us fs' = last_good_us fs \<and> have_last_good fs' = have_last_good fs
    \<and> f32_ok (last_good_cm fs') \<and> no_farther (last_good_cm fs) (last_good_cm fs')
    \<and> mode out = (if held fs (in_now i) then OP_DEGRADED_HOLDOVER else OP_UNSAFE)
    \<and> (distance_cm out = f32_0 \<or> distance_cm out = last_good_cm fs')"
proof -
  have none: "\<not> present (read_contributor (in_mgr i) (in_us1 i) (in_now i))"
      "\<not> present (read_contributor (in_mgr i) (in_us2 i) (in_now i))"
    using assms(1,2) by (auto simp: input_ok_def blind_def present_iff)
  define h where "h = fuse_holdover fs (read_long_accel (in_mgr i) (in_imu1 i) (in_imu2 i) (in_now i)) (in_now i)"
  obtain hs ho where hso: "h = (hs, ho)" by fastforce
  note st = holdover_state [OF hso [unfolded h_def]]
  have m: "mode ho = (if held fs (in_now i) then OP_DEGRADED_HOLDOVER else OP_UNSAFE)"
    using fuse_holdover_mode(1) [of fs _ "in_now i"] hso by (metis h_def snd_conv)
  have "fs' = hs" "out = (if mode ho = OP_UNSAFE then ho else safe_edge ho)"
    using assms(3) none hso by (auto simp: fusion_step_def c_ops Let_def h_def [symmetric])
  then show ?thesis using st m assms(4) by auto
qed

lemma blind_run:
  assumes "\<forall>i\<in>set is. input_ok i \<and> blind i" "fusion_run fs is = (fs', outs)" "f32_ok (last_good_cm fs)"
  shows "last_good_us fs' = last_good_us fs \<and> have_last_good fs' = have_last_good fs
    \<and> f32_ok (last_good_cm fs') \<and> no_farther (last_good_cm fs) (last_good_cm fs')
    \<and> map mode outs = map (\<lambda>i. if held fs (in_now i) then OP_DEGRADED_HOLDOVER else OP_UNSAFE) is
    \<and> (\<forall>out\<in>set outs. distance_cm out = f32_0 \<or> no_farther (last_good_cm fs) (distance_cm out))"
  using assms
proof (induction "is" arbitrary: fs fs' outs)
  case (Cons i "is")
  obtain fs1 out where 1: "fusion_step fs i = (fs1, out)" by fastforce
  obtain fs2 outs2 where 2: "fusion_run fs1 is = (fs2, outs2)" by fastforce
  have s: "last_good_us fs1 = last_good_us fs" "have_last_good fs1 = have_last_good fs"
      "f32_ok (last_good_cm fs1)" "no_farther (last_good_cm fs) (last_good_cm fs1)"
      "mode out = (if held fs (in_now i) then OP_DEGRADED_HOLDOVER else OP_UNSAFE)"
      "distance_cm out = f32_0 \<or> distance_cm out = last_good_cm fs1"
    using blind_step [OF _ _ 1 Cons.prems(3)] Cons.prems(1) by auto
  have e: "fs' = fs2" "outs = out # outs2" using Cons.prems(2) 1 2 by auto
  have h: "held fs1 = held fs" using s(1,2) by (simp add: held_def fun_eq_iff)
  show ?case
    using Cons.IH [OF _ 2 s(3)] Cons.prems(1) s e h by (auto intro: no_farther_trans)
qed (simp add: held_def)

section \<open>Zones\<close>

definition zone_rank :: "string \<Rightarrow> nat" where
  "zone_rank z = (if z = ''SAFE'' then 4 else if z = ''NORMAL'' then 3 else if z = ''CAUTION'' then 2
     else if z = ''SLOW'' then 1 else 0)"

text \<open>The zone of a distance that is known to be safe.\<close>

definition zone_of :: "f32 \<Rightarrow> string" where
  "zone_of d = fusion_zone_name (zero_result\<lparr>valid := True, safe_distance_cm := d\<rparr>)"

lemma zone_name_eq:
  "fusion_zone_name r = (if valid r then zone_of (safe_distance_cm r) else ''CRITICAL/STOP'')"
  by (simp add: zone_of_def fusion_zone_name_def)

lemma zone_rank_of:
  "zone_rank (zone_of d) = (if f32_gt d ZONE_SAFE_CM then 4 else if f32_gt d ZONE_NORMAL_CM then 3
     else if f32_gt d ZONE_CAUTION_CM then 2 else if f32_gt d ZONE_SLOW_CM then 1 else 0)"
  by (simp add: zone_of_def fusion_zone_name_def zone_rank_def zero_result_def)

lemma zone_rank_mono:
  assumes "f32_le d e"
  shows "zone_rank (zone_of d) \<le> zone_rank (zone_of e)"
  using assms f32_lt_le_trans [OF _ assms] unfolding zone_rank_of by auto

section \<open>Bounds on a cycle\<close>

definition in_range :: "fusion_result \<Rightarrow> bool" where
  "in_range r = (between 0 (500 * 2 ^ 149) (distance_cm r) \<and> (\<exists>B. between 0 B (uncertainty_cm r))
     \<and> f32_ok (distance_cm r))"

lemma in_range_edge:
  assumes "in_range r"
  shows "f32_le f32_0 (safe_distance_cm (safe_edge r))
    \<and> f32_le (safe_distance_cm (safe_edge r)) (distance_cm r) \<and> f32_le (distance_cm r) MAX_DISTANCE_CM"
  using assms safe_edge_nonneg [of _ r] betweenD(2) [of _ _ "distance_cm r"]
  by (auto simp: in_range_def distance_constants)

lemma combine_ranges:
  assumes "contrib_ok a" "contrib_ok b" "fusion_combine fs a b acc now = (fs', out)"
    and "mode out = OP_FULL \<or> mode out = OP_DEGRADED_SINGLE"
  shows "f32_le f32_0 (safe_distance_cm out) \<and> f32_le (safe_distance_cm out) (distance_cm out)
    \<and> f32_le (distance_cm out) MAX_DISTANCE_CM"
  using assms(3)
proof (cases rule: fusion_combine_cases)
  case pair
  have "in_range (fuse_pair a b)"
    unfolding in_range_def using pair(1,2) assms(1,2) by (intro pair_range contrib_okD)
  from in_range_edge [OF this] show ?thesis using pair(3) by simp
next
  case (single c)
  have "in_range (fuse_single c)"
    unfolding in_range_def using single(1,2) assms(1,2) by (intro single_range contrib_okD) auto
  from in_range_edge [OF this] show ?thesis using single(4) by simp
qed (use assms(4) in \<open>simp_all add: fuse_holdover_mode\<close>)

lemma measured_ranges:
  assumes "range_ctx m x1" "range_ctx m x2" "fusion_compute fs m x1 x2 x3 x4 now = (fs', out)"
    and "mode out = OP_FULL \<or> mode out = OP_DEGRADED_SINGLE"
  shows "f32_le f32_0 (safe_distance_cm out) \<and> f32_le (safe_distance_cm out) (distance_cm out)
    \<and> f32_le (distance_cm out) MAX_DISTANCE_CM"
  by (rule combine_ranges [OF read_contrib_ok [OF assms(1)] read_contrib_ok [OF assms(2)]
        assms(3) [unfolded fusion_compute_def Let_def] assms(4)])

lemma contributing_cm:
  assumes "range_ctx m x" "contributing m x now" "newest_range m x = Some (t, vs)"
  shows "cm (read_contributor m x now) = hd vs"
  using read_contributor_eq [OF assms(1), of now] assms(2,3) by (auto simp: contributing_def)

lemma closer_distance:
  assumes "f32_gt (f32_abs (f32_sub (cm a) (cm b))) PAIR_DISAGREE_CM"
  shows "distance_cm (fuse_pair a b) = (if f32_lt (cm a) (cm b) then cm a else cm b)"
    and "uncertainty_cm (fuse_pair a b) = f32_abs (f32_sub (cm a) (cm b))" "disagreement (fuse_pair a b)"
  using assms by (simp_all add: fuse_pair_def Let_def)

lemma disagreement_iff:
  "disagreement (fuse_pair a b) = f32_gt (f32_abs (f32_sub (cm a) (cm b))) PAIR_DISAGREE_CM"
  by (simp add: fuse_pair_def Let_def zero_result_def)

text \<open>Two contributors of the same state, or two that disagree: the edge is on the near side of both.\<close>

lemma pair_edge_closer:
  assumes "range_contrib a" "range_contrib b" "weight a = weight b \<or> disagreement (fuse_pair a b)"
  shows "f32_le (safe_distance_cm (safe_edge (fuse_pair a b))) (cm a)
    \<and> f32_le (safe_distance_cm (safe_edge (fuse_pair a b))) (cm b)"
proof -
  obtain i j v w where ij: "cm a = FFin i" "cm b = FFin j" "0 < i" "0 < j" "i \<le> 500 * 2 ^ 149"
      "j \<le> 500 * 2 ^ 149" "f32_ok (FFin i)" "f32_ok (FFin j)" "weight a = FFin v" "weight b = FFin w"
      "v = w_healthy \<or> v = w_suspect"
    using assms(1,2) by (auto simp: range_contrib_def simp del: f32_ok.simps)
  have "f32_le (safe_distance_cm (safe_edge (fuse_pair a b))) (FFin (min i j))"
  proof (cases "disagreement (fuse_pair a b)")
    case True
    note far = True [unfolded disagreement_iff]
    have "in_range (fuse_pair a b)" unfolding in_range_def by (rule pair_range [OF assms(1,2)])
    from in_range_edge [OF this] show ?thesis using closer_distance(1) [OF far] ij(1,2)
      by (cases i j rule: linorder_cases) auto
  next
    case False
    then show ?thesis
      using assms(3) ij by (intro equal_weight_edge [of i j a b v]) (auto simp: disagreement_iff simp del: f32_ok.simps)
  qed
  then show ?thesis using ij(1,2) by (auto elim: f32_le_trans)
qed

lemma single_edge_closer:
  assumes "range_contrib c"
  shows "f32_le (safe_distance_cm (safe_edge (fuse_single c))) (cm c)"
proof -
  have "in_range (fuse_single c)" unfolding in_range_def by (rule single_range [OF assms])
  then show ?thesis using in_range_edge [of "fuse_single c"] by (simp add: fuse_single_def)
qed

lemma state_weight:
  assumes "range_ctx m x" "present (read_contributor m x now)"
  shows "weight (read_contributor m x now) = FFin (if state x = STATE_SUSPECT then w_suspect else w_healthy)"
  by (rule contributor_present [OF assms])

lemma measured_edge_closer:
  assumes "range_ctx m x1" "range_ctx m x2" "fusion_compute fs m x1 x2 x3 x4 now = (fs', out)"
    and "x = x1 \<or> x = x2" "contributing m x now" "newest_range m x = Some (t, vs)"
    and "state x1 = state x2 \<or> disagreement out \<or> contributors out = 1"
  shows "f32_le (safe_distance_cm out) (hd vs)"
proof -
  have x: "range_ctx m x" using assms by auto
  have cm: "hd vs = cm (read_contributor m x now)" using contributing_cm [OF x assms(5,6)] by simp
  show ?thesis using assms(3)
  proof (cases rule: fusion_compute_cases)
    case pair
    have "state x1 = state x2 \<or> disagreement (fuse_pair (read_contributor m x1 now) (read_contributor m x2 now))"
      using assms(7) pair(3) by simp
    then show ?thesis
      using pair_edge_closer [OF contributor_range [OF assms(1) pair(1)] contributor_range [OF assms(2) pair(2)]]
        state_weight [OF assms(1) pair(1)] state_weight [OF assms(2) pair(2)] assms(4) cm pair(3) by auto
  next
    case (single y)
    then have "y = x" using assms(4,5) present_iff [OF x] by auto
    then show ?thesis using single_edge_closer [OF contributor_range [OF x]] single cm by simp
  qed (use assms(1,2,4,5) x present_iff in auto)
qed

section \<open>Properties\<close>

text \<open>A scenario: both ultrasonics read, by sensors in the given states.\<close>

lemma scenario_ctx:
  "1 \<le> d1 \<Longrightarrow> d1 \<le> 500 \<Longrightarrow> 1 \<le> d2 \<Longrightarrow> d2 \<le> 500 \<Longrightarrow> i \<in> {SENSOR_US1, SENSOR_US2}
   \<Longrightarrow> range_ctx (two_ranges t1 d1 t2 d2) (ctx_in i s)"
  by (simp add: range_ctx_def two_ranges_inv)

lemma scenario_newest:
  "newest_range (two_ranges t1 d1 t2 d2) (ctx_in SENSOR_US1 s) = Some (t1, [f32_of_int d1])"
  "newest_range (two_ranges t1 d1 t2 d2) (ctx_in SENSOR_US2 s) = Some (t2, [f32_of_int d2])"
  by (simp_all add: newest_range_def two_ranges_def ranged_latest)

lemma scenario_contributing:
  "contributing (two_ranges t1 d1 t2 d2) (ctx_in SENSOR_US1 s) now = (state_is_usable s \<and> fresh now t1)"
  "contributing (two_ranges t1 d1 t2 d2) (ctx_in SENSOR_US2 s) now = (state_is_usable s \<and> fresh now t2)"
  by (simp_all add: contributing_def scenario_newest)

definition scenario :: "fusion_state \<Rightarrow> sensor_state \<Rightarrow> sensor_state \<Rightarrow> int \<Rightarrow> int \<Rightarrow> u64 \<Rightarrow> fusion_state \<times> fusion_result" where
  "scenario fs s1 s2 d1 d2 now = fusion_compute fs (two_ranges 1000 d1 1000 d2) (ctx_in SENSOR_US1 s1)
     (ctx_in SENSOR_US2 s2) (ctx_in SENSOR_IMU1 STATE_HEALTHY) (ctx_in SENSOR_IMU2 STATE_HEALTHY) now"

lemma scenario_run:
  "fusion_compute fs (two_ranges 1000 d1 1000 d2) (ctx_in SENSOR_US1 s1) (ctx_in SENSOR_US2 s2)
     (ctx_in SENSOR_IMU1 STATE_HEALTHY) (ctx_in SENSOR_IMU2 STATE_HEALTHY) now
   = (fst (scenario fs s1 s2 d1 d2 now), snd (scenario fs s1 s2 d1 d2 now))"
  by (simp add: scenario_def)

lemmas scenario_simps = scenario_ctx scenario_newest scenario_contributing state_is_usable_def fresh_def

lemma zone_rank_stop: "zone_rank ''CRITICAL/STOP'' = 0"
  by (simp add: zone_rank_def)

lemma measured_step:
  assumes "input_ok i" "fusion_step fs i = (fs', out)" "mode out = OP_FULL \<or> mode out = OP_DEGRADED_SINGLE"
  shows "fs' = note_good (distance_cm out) (in_now i) fs" "f32_ok (distance_cm out)"
proof -
  have r: "range_ctx (in_mgr i) (in_us1 i)" "range_ctx (in_mgr i) (in_us2 i)"
    using assms(1) by (auto simp: input_ok_def)
  have "fs' = note_good (distance_cm out) (in_now i) fs \<and> f32_ok (distance_cm out)"
    using assms(2) unfolding fusion_step_def
  proof (cases rule: fusion_compute_cases)
    case pair
    then show ?thesis using pair_range [OF contributor_range contributor_range] r by simp
  next
    case (single x)
    then show ?thesis using single_range [OF contributor_range, of "in_mgr i" x "in_now i"] r by auto
  qed (use assms(3) in \<open>simp_all add: fuse_holdover_mode\<close>)
  then show "fs' = note_good (distance_cm out) (in_now i) fs" "f32_ok (distance_cm out)" by auto
qed

lemma held_note_good: "held (note_good d t fs) now = (unat (now - t) \<le> 1500000)"
  by (simp add: held_def note_good_def HOLDOVER_MAX_US_def word_le_nat_alt)

text \<open>The estimate depends on the manager through the buffers of the usable sensors only.\<close>

lemma read_contributor_local:
  "state_is_usable (state x) \<longrightarrow> mgr_buffer m' (ctx_id x) = mgr_buffer m (ctx_id x)
   \<Longrightarrow> read_contributor m' x now = read_contributor m x now"
  by (auto simp: read_contributor_def)

lemma accel_local:
  assumes "mgr_buffer m' (ctx_id x) = mgr_buffer m (ctx_id x)" "mgr_buffer m' (ctx_id y) = mgr_buffer m (ctx_id y)"
  shows "read_long_accel m' x y now = read_long_accel m x y now"
proof -
  have "accel_candidate m' now x = accel_candidate m now x" "accel_candidate m' now y = accel_candidate m now y"
    using assms by (simp_all add: accel_candidate_def)
  then show ?thesis by (simp add: read_long_accel_def split: option.split)
qed

text \<open>
  C2. The degradation ladder. With the buffers a running manager keeps, the mode is FULL when both
  ultrasonic sensors contribute, SINGLE when one does, HOLDOVER when none does but a good reading
  is at most 1.5 s old, and UNSAFE otherwise; a sensor contributes exactly when it is HEALTHY or
  SUSPECT and its newest sample is at most 300 ms old. The result is valid in every mode but UNSAFE,
  counts its contributors, and an UNSAFE result is always the stop zone.
\<close>

theorem fusion_mode_ladder:
  assumes "range_ctx m x1" "range_ctx m x2" "fusion_compute fs m x1 x2 x3 x4 now = (fs', out)"
  shows "mode out = ladder (contributing m x1 now) (contributing m x2 now) (held fs now)
    \<and> valid out = (mode out \<noteq> OP_UNSAFE)
    \<and> contributors out = of_bool (contributing m x1 now) + of_bool (contributing m x2 now)
    \<and> (mode out = OP_UNSAFE \<longrightarrow> fusion_zone_name out = ''CRITICAL/STOP'')"
  using fusion_ladder [OF assms] by (auto simp: zone_name_eq)

theorem fusion_mode_ladder_witness:
  "mode (snd (scenario zero_state STATE_HEALTHY STATE_EXCLUDED 80 90 2000)) = OP_DEGRADED_SINGLE
   \<and> mode (snd (scenario zero_state STATE_HEALTHY STATE_SUSPECT 80 90 301001)) = OP_UNSAFE"
  using fusion_mode_ladder [OF _ _ scenario_run [of zero_state 80 90 STATE_HEALTHY STATE_EXCLUDED 2000]]
    fusion_mode_ladder [OF _ _ scenario_run [of zero_state 80 90 STATE_HEALTHY STATE_SUSPECT 301001]]
  by (simp add: scenario_simps ladder_def held_def zero_state_def)

text \<open>
  C3. The zone is never better than what a contributing sensor reads. In FULL mode with both sensors
  in the same state, in FULL mode with a disagreement, and in SINGLE mode, the safe edge is at most
  the reading of every contributing sensor, so the zone reported ranks no higher than the zone of
  that reading alone.
\<close>

theorem zone_never_better:
  assumes "range_ctx m x1" "range_ctx m x2" "fusion_compute fs m x1 x2 x3 x4 now = (fs', out)"
    and "x = x1 \<or> x = x2" "contributing m x now" "newest_range m x = Some (t, [d])"
    and "state x1 = state x2 \<or> disagreement out \<or> contributors out = 1"
  shows "f32_le (safe_distance_cm out) d
    \<and> zone_rank (fusion_zone_name out) \<le> zone_rank (zone_of d)"
proof -
  have "f32_le (safe_distance_cm out) d"
    using measured_edge_closer [OF assms] by simp
  then show ?thesis using zone_rank_mono by (auto simp: zone_name_eq zone_rank_stop)
qed

theorem zone_never_better_witness:
  "zone_rank (fusion_zone_name (snd (scenario zero_state STATE_HEALTHY STATE_HEALTHY 58 63 2000)))
     \<le> zone_rank (zone_of (f32_of_int 58))"
  using zone_never_better [OF _ _ scenario_run [of zero_state 58 63 STATE_HEALTHY STATE_HEALTHY 2000],
      of "ctx_in SENSOR_US1 STATE_HEALTHY"]
  by (simp add: scenario_simps)

text \<open>
  Range of a measured estimate. In FULL and SINGLE mode the distance is at most 500 cm, and the
  safe edge lies between 0 and the distance; no NaN or infinity reaches the zone ladder.
\<close>

lemma measured_estimate_range:
  assumes "range_ctx m x1" "range_ctx m x2" "fusion_compute fs m x1 x2 x3 x4 now = (fs', out)"
    and "mode out = OP_FULL \<or> mode out = OP_DEGRADED_SINGLE"
  shows "f32_le f32_0 (safe_distance_cm out) \<and> f32_le (safe_distance_cm out) (distance_cm out)
    \<and> f32_le (distance_cm out) MAX_DISTANCE_CM"
  by (rule measured_ranges [OF assms])

text \<open>
  C10. Dead reckoning is bounded. After a measured estimate at time t, cycles in which neither
  ultrasonic sensor contributes are HOLDOVER for 1.5 s after t and UNSAFE from then on, however many
  they are and whatever the inertial sensors read; each reports a distance that is 0 or no farther
  than the measured one.
\<close>

theorem holdover_limited:
  assumes "input_ok i0" "fusion_step fs0 i0 = (fs1, out0)"
    and "mode out0 = OP_FULL \<or> mode out0 = OP_DEGRADED_SINGLE"
    and "\<forall>i\<in>set is. input_ok i \<and> blind i" "fusion_run fs1 is = (fs2, outs)"
  shows "map mode outs = map (\<lambda>i. if unat (in_now i - in_now i0) \<le> 1500000
      then OP_DEGRADED_HOLDOVER else OP_UNSAFE) is
    \<and> (\<forall>out\<in>set outs. distance_cm out = f32_0 \<or> no_farther (distance_cm out0) (distance_cm out))"
proof -
  note m = measured_step [OF assms(1-3)]
  have l: "last_good_cm fs1 = distance_cm out0" using m(1) by (simp add: note_good_def)
  show ?thesis using blind_run [OF assms(4,5)] m l by (simp add: held_note_good)
qed

definition scene :: "sensor_state \<Rightarrow> u64 \<Rightarrow> fusion_input" where
  "scene s now = \<lparr>in_mgr = two_ranges 1000 80 1000 90, in_us1 = ctx_in SENSOR_US1 s,
     in_us2 = ctx_in SENSOR_US2 s, in_imu1 = ctx_in SENSOR_IMU1 STATE_HEALTHY,
     in_imu2 = ctx_in SENSOR_IMU2 STATE_HEALTHY, in_now = now\<rparr>"

lemma scene_simps:
  "input_ok (scene s now)" "in_now (scene s now) = now"
  "blind (scene s now) = (\<not> (state_is_usable s \<and> fresh now 1000))"
  "fusion_step fs (scene s now) = (fst (scenario fs s s 80 90 now), snd (scenario fs s s 80 90 now))"
  by (simp_all add: input_ok_def blind_def fusion_step_def scene_def scenario_run scenario_ctx scenario_contributing)

theorem holdover_limited_witness:
  "map mode (snd (fusion_run (fst (scenario zero_state STATE_HEALTHY STATE_HEALTHY 80 90 2000))
     [scene STATE_EXCLUDED 1000000, scene STATE_EXCLUDED 1502000, scene STATE_HEALTHY 1502001]))
   = [OP_DEGRADED_HOLDOVER, OP_DEGRADED_HOLDOVER, OP_UNSAFE]"
  using holdover_limited [OF scene_simps(1) scene_simps(4) _ _ surjective_pairing, of zero_state STATE_HEALTHY 2000
      "[scene STATE_EXCLUDED 1000000, scene STATE_EXCLUDED 1502000, scene STATE_HEALTHY 1502001]"]
    fusion_ladder [OF _ _ scenario_run [of zero_state 80 90 STATE_HEALTHY STATE_HEALTHY 2000]]
  by (simp add: scene_simps scenario_simps ladder_def)

text \<open>
  C19. An excluded sensor has no influence. When an ultrasonic sensor is in any state but HEALTHY
  and SUSPECT, the result and the next fusion state do not depend on what its buffer holds.
\<close>

theorem excluded_sensor_irrelevant:
  assumes "ctx_id x1 = SENSOR_US1" "ctx_id x2 = SENSOR_US2" "ctx_id x3 = SENSOR_IMU1" "ctx_id x4 = SENSOR_IMU2"
  shows "(\<not> state_is_usable (state x1)
        \<longrightarrow> fusion_compute fs (m\<lparr>us1_buf := b\<rparr>) x1 x2 x3 x4 now = fusion_compute fs m x1 x2 x3 x4 now)
    \<and> (\<not> state_is_usable (state x2)
        \<longrightarrow> fusion_compute fs (m\<lparr>us2_buf := b\<rparr>) x1 x2 x3 x4 now = fusion_compute fs m x1 x2 x3 x4 now)"
proof -
  have eq: "fusion_compute fs m' x1 x2 x3 x4 now = fusion_compute fs m x1 x2 x3 x4 now"
    if "\<forall>x\<in>{x1, x2}. state_is_usable (state x) \<longrightarrow> mgr_buffer m' (ctx_id x) = mgr_buffer m (ctx_id x)"
      "\<forall>x\<in>{x3, x4}. mgr_buffer m' (ctx_id x) = mgr_buffer m (ctx_id x)" for m'
  proof -
    have "read_contributor m' x1 now = read_contributor m x1 now" "read_contributor m' x2 now = read_contributor m x2 now"
      "read_long_accel m' x3 x4 now = read_long_accel m x3 x4 now"
      using that by (auto intro!: read_contributor_local accel_local)
    then show ?thesis by (simp add: fusion_compute_def cong: if_cong)
  qed
  have "fusion_compute fs (m\<lparr>us1_buf := b\<rparr>) x1 x2 x3 x4 now = fusion_compute fs m x1 x2 x3 x4 now"
    if "\<not> state_is_usable (state x1)"
    by (rule eq) (simp_all add: assms that)
  moreover have "fusion_compute fs (m\<lparr>us2_buf := b\<rparr>) x1 x2 x3 x4 now = fusion_compute fs m x1 x2 x3 x4 now"
    if "\<not> state_is_usable (state x2)"
    by (rule eq) (simp_all add: assms that)
  ultimately show ?thesis by blast
qed

theorem excluded_sensor_irrelevant_witness:
  "snd (fusion_compute zero_state ((two_ranges 1000 80 1000 90)\<lparr>us2_buf := ranged SENSOR_US2 1000 3\<rparr>)
     (ctx_in SENSOR_US1 STATE_HEALTHY) (ctx_in SENSOR_US2 STATE_EXCLUDED)
     (ctx_in SENSOR_IMU1 STATE_HEALTHY) (ctx_in SENSOR_IMU2 STATE_HEALTHY) 2000)
   = snd (scenario zero_state STATE_HEALTHY STATE_EXCLUDED 80 90 2000)"
  unfolding scenario_def
  using excluded_sensor_irrelevant [of "ctx_in SENSOR_US1 STATE_HEALTHY" "ctx_in SENSOR_US2 STATE_EXCLUDED"
      "ctx_in SENSOR_IMU1 STATE_HEALTHY" "ctx_in SENSOR_IMU2 STATE_HEALTHY"]
  by (simp add: state_is_usable_def)

text \<open>
  C20. A contradiction is resolved towards the obstacle. When both sensors contribute and their
  readings differ by more than 20 cm, the disagreement is flagged, the distance is the closer
  reading and the uncertainty is the difference.
\<close>

theorem disagreement_takes_closer:
  assumes "range_ctx m x1" "range_ctx m x2" "fusion_compute fs m x1 x2 x3 x4 now = (fs', out)"
    and "contributing m x1 now" "contributing m x2 now"
    and "newest_range m x1 = Some (t1, [a])" "newest_range m x2 = Some (t2, [b])"
    and "f32_gt (f32_abs (f32_sub a b)) (f32_of_int 20)"
  shows "disagreement out \<and> distance_cm out = (if f32_lt a b then a else b)
    \<and> uncertainty_cm out = f32_abs (f32_sub a b)"
proof -
  have "f32_of_int 20 = PAIR_DISAGREE_CM" by code_simp
  then have far: "f32_gt (f32_abs (f32_sub (cm (read_contributor m x1 now)) (cm (read_contributor m x2 now)))) PAIR_DISAGREE_CM"
    using contributing_cm [OF assms(1,4,6)] contributing_cm [OF assms(2,5,7)] assms(8) by simp
  have "out = safe_edge (fuse_pair (read_contributor m x1 now) (read_contributor m x2 now))"
    using assms(3-5) present_iff [OF assms(1)] present_iff [OF assms(2)]
    by (simp add: c_ops Let_def)
  then show ?thesis
    using closer_distance [OF far] contributing_cm [OF assms(1,4,6)] contributing_cm [OF assms(2,5,7)] by simp
qed

theorem disagreement_takes_closer_witness:
  "distance_cm (snd (scenario zero_state STATE_HEALTHY STATE_HEALTHY 80 50 2000)) = f32_of_int 50"
proof -
  have "f32_gt (f32_abs (f32_sub (f32_of_int 80) (f32_of_int 50))) (f32_of_int 20)"
    "\<not> f32_lt (f32_of_int 80) (f32_of_int 50)" by code_simp+
  then show ?thesis
    using disagreement_takes_closer [OF _ _ scenario_run [of zero_state 80 50 STATE_HEALTHY STATE_HEALTHY 2000]]
    by (simp add: scenario_simps)
qed

text \<open>
  The zone ladder is monotone. A result with a larger safe edge never gets a lower zone, as
  long as it is valid; an invalid one gets the stop zone.
\<close>

lemma zone_monotone:
  assumes "f32_le (safe_distance_cm r) (safe_distance_cm r')" "valid r \<Longrightarrow> valid r'"
  shows "zone_rank (fusion_zone_name r) \<le> zone_rank (fusion_zone_name r')
    \<and> (\<not> valid r \<longrightarrow> fusion_zone_name r = ''CRITICAL/STOP'')"
  using assms zone_rank_mono [OF assms(1)] by (auto simp: zone_name_eq zone_rank_stop)


text \<open>
  The longer an estimate is held, the less it is trusted: the uncertainty charged in HOLDOVER
  never decreases with the age of the last good reading.
\<close>

lemma holdover_uncertainty_mono:
  assumes "h \<le> k"
  shows "f32_le (holdover_uncertainty h) (holdover_uncertainty k)"
  by (rule holdover_growth [OF assms])


text \<open>The safe edge of two agreeing readings with given weights.\<close>

definition edge_of :: "f32 \<Rightarrow> f32 \<Rightarrow> f32 \<Rightarrow> f32 \<Rightarrow> f32" where
  "edge_of x y v w =
     (let d = f32_div (f32_add (f32_mul x v) (f32_mul y w)) (f32_add v w);
          u = f32_add (f32_sqrt (f32_div (f32_lit 1 1) (f32_add v w))) (f32_mul (f32_abs (f32_sub x y)) (f32_lit 1 2));
          s = f32_sub d u
      in if f32_lt s f32_0 then f32_0 else s)"

lemma agreeing_edge:
  assumes "\<not> f32_gt (f32_abs (f32_sub (cm a) (cm b))) PAIR_DISAGREE_CM"
  shows "safe_distance_cm (safe_edge (fuse_pair a b)) = edge_of (cm a) (cm b) (weight a) (weight b)"
  using assms
  by (simp add: safe_edge_def fuse_pair_def edge_of_def weighted_mean_def pair_uncertainty_def Let_def)


end
