(* ===== verification/Thread_System.thy ===== *)
theory Thread_System
  imports Fdi_Life Fusion_Runs
begin

text \<open>
  The threads of \<open>src/main.c\<close> and the messages between them, as a step relation. \<open>main\<close> creates
  the four others and waits for them. A \<open>MsgSend\<close> blocks its sender until the receiver is in
  \<open>MsgReceive\<close>; every receiver replies at once, so that a message is one joint step of the two
  threads. Every access of a check to a buffer is a step of its own, so that the sensor thread may write
  between the checks of one verdict; so are the debounce of a sensor, its isolation, the construction
  of its event, the switch of the recovery thread, the use of a probe's verdict, the read of one
  sensor, the reading of one contributor, the estimate from what was read and the output of its
  two lines. The results of \<open>MsgSend\<close> and \<open>pthread_create\<close> are ignored: a
  send that fails loses its message, and a thread that was not created stays in its first point. A
  \<open>MsgReceive\<close> that fails is tried again.
\<close>

section \<open>Threads\<close>

text \<open>
  The last point of each is that of a thread that returned. A check carries the state that was read
  before it and how far it has come.
\<close>

datatype fusion_thread = S_off | S_start | S_poll "sensor_id list" | S_send u64
  | S_fuse u64 | S_second u64 contrib | S_combine u64 contrib contrib | S_show fusion_result
  | S_sleep | S_gone

datatype fdi_thread =
    F_off
  | F_start
  | F_recv
  | F_turn u64 "sensor_id list"
  | F_check sensor_id sensor_state detect_point u64 "sensor_id list"
  | F_isolate sensor_id sensor_state fault_type u64 "sensor_id list"
  | F_event sensor_id u64 "sensor_id list"
  | F_log fault_event u64 "sensor_id list"
  | F_wake fault_event u64 "sensor_id list"
  | F_gone

datatype recovery_thread = R_off | R_start | R_recv | R_handle fault_event
  | R_check fault_event detect_point | R_log "fault_event list" | R_gone

datatype logger_thread = L_off | L_start | L_recv | L_write fault_event | L_gone

datatype main_thread = M_create "thread_name list" | M_join "thread_name list" | M_exit int

record system =
  glob :: globals
  wld :: world
  running :: bool
  main_th :: main_thread
  fusion_th :: fusion_thread
  fdi_th :: fdi_thread
  recovery_th :: recovery_thread
  logger_th :: logger_thread
  prio :: "thread_name \<Rightarrow> int option"
  table :: "sensor_state list"
  timeline :: "string list"
  dashboard :: "fusion_result list"
  screen :: "string list"

definition create_order :: "thread_name list" where
  "create_order = [Logger_Thread, Recovery_Thread, Fdi_Thread, Sensor_Thread]"

definition join_order :: "thread_name list" where
  "join_order = [Sensor_Thread, Fdi_Thread, Recovery_Thread, Logger_Thread]"

lemma join_order_not_Nil [simp]: "join_order \<noteq> []" "[] \<noteq> join_order"
  by (simp_all add: join_order_def)

text \<open>The globals of \<open>main\<close> when it comes to create the threads; \<open>g_running\<close> is 1 from the start.\<close>

definition start :: "globals \<Rightarrow> world \<Rightarrow> system" where
  "start g w = \<lparr>glob = g, wld = w, running = True, main_th = M_create create_order, fusion_th = S_off,
     fdi_th = F_off, recovery_th = R_off, logger_th = L_off, prio = (\<lambda>t. None),
     table = replicate 4 STATE_HEALTHY, timeline = [], dashboard = [], screen = []\<rparr>"

definition launch :: "bool \<Rightarrow> thread_name \<Rightarrow> system \<Rightarrow> system" where
  "launch ok t s =
     (if \<not> ok then s
      else case t of
        Sensor_Thread \<Rightarrow> s\<lparr>fusion_th := S_start\<rparr>
      | Fdi_Thread \<Rightarrow> s\<lparr>fdi_th := F_start\<rparr>
      | Recovery_Thread \<Rightarrow> s\<lparr>recovery_th := R_start\<rparr>
      | Logger_Thread \<Rightarrow> s\<lparr>logger_th := L_start\<rparr>)"

text \<open>
  What \<open>pthread_join\<close> waits for. The join of a thread that was never created is undefined in C;
  here it never returns.
\<close>

fun returned :: "system \<Rightarrow> thread_name \<Rightarrow> bool" where
  "returned s Sensor_Thread = (fusion_th s = S_gone)"
| "returned s Fdi_Thread = (fdi_th s = F_gone)"
| "returned s Recovery_Thread = (recovery_th s = R_gone)"
| "returned s Logger_Thread = (logger_th s = L_gone)"

definition raise_prio :: "links \<Rightarrow> thread_name \<Rightarrow> system \<Rightarrow> system" where
  "raise_prio lk t s = s\<lparr>prio := (prio s)(t := set_prio lk t (prio s t))\<rparr>"

text \<open>The test of a loop: the point it goes to while \<open>g_running\<close> is set, and the one after it.\<close>

definition again :: "system \<Rightarrow> 'p \<Rightarrow> 'p \<Rightarrow> 'p" where
  "again s p gone = (if running s then p else gone)"

text \<open>The line the logger writes, if any.\<close>

definition log_out :: "string option \<Rightarrow> string list" where
  "log_out l = (case l of None \<Rightarrow> [] | Some x \<Rightarrow> [x])"

inductive sys_step :: "mgr_env \<Rightarrow> links \<Rightarrow> system \<Rightarrow> system \<Rightarrow> bool" for env lk where
  create: "main_th s = M_create (t # ts) \<Longrightarrow> sys_step env lk s (launch (created lk t) t (s\<lparr>main_th := M_create ts\<rparr>))"
| all_created: "main_th s = M_create [] \<Longrightarrow> sys_step env lk s (s\<lparr>main_th := M_join join_order\<rparr>)"
| join: "main_th s = M_join (t # ts) \<Longrightarrow> returned s t \<Longrightarrow> sys_step env lk s (s\<lparr>main_th := M_join ts\<rparr>)"
| shut_down: "main_th s = M_join [] \<Longrightarrow> sensor_manager_shutdown (Some (g_mgr (glob s))) (wld s) = (Some m, w1)
    \<Longrightarrow> sys_step env lk s (s\<lparr>glob := (glob s)\<lparr>g_mgr := m\<rparr>, wld := w1, main_th := M_exit 0\<rparr>)"
| sensor_start: "fusion_th s = S_start
    \<Longrightarrow> sys_step env lk s ((raise_prio lk Sensor_Thread s)\<lparr>fusion_th := again s (S_poll pair_order) S_gone\<rparr>)"
| fdi_start: "fdi_th s = F_start
    \<Longrightarrow> sys_step env lk s ((raise_prio lk Fdi_Thread s)\<lparr>fdi_th := again s F_recv F_gone\<rparr>)"
| recovery_start: "recovery_th s = R_start
    \<Longrightarrow> sys_step env lk s ((raise_prio lk Recovery_Thread s)\<lparr>recovery_th := again s R_recv R_gone\<rparr>)"
| logger_start: "logger_th s = L_start \<Longrightarrow> sys_step env lk s ((raise_prio lk Logger_Thread s)
      \<lparr>logger_th := (if log_opens lk then again s L_recv L_gone else L_gone)\<rparr>)"
| fdi_retry: "fdi_th s = F_recv \<Longrightarrow> sys_step env lk s (s\<lparr>fdi_th := again s F_recv F_gone\<rparr>)"
| recovery_retry: "recovery_th s = R_recv \<Longrightarrow> sys_step env lk s (s\<lparr>recovery_th := again s R_recv R_gone\<rparr>)"
| logger_retry: "logger_th s = L_recv \<Longrightarrow> sys_step env lk s (s\<lparr>logger_th := again s L_recv L_gone\<rparr>)"
| poll: "fusion_th s = S_poll (i # is) \<Longrightarrow> poll_sensor env (g_mgr (glob s)) i (wld s) = Some (m, w1)
    \<Longrightarrow> sys_step env lk s (s\<lparr>glob := (glob s)\<lparr>g_mgr := m\<rparr>, wld := w1, fusion_th := S_poll is\<rparr>)"
| stamp: "fusion_th s = S_poll [] \<Longrightarrow> main_now_us env (wld s) = (now, w1)
    \<Longrightarrow> sys_step env lk s (s\<lparr>wld := w1, fusion_th := (if to_fdi lk then S_send now else S_fuse now)\<rparr>)"
| notify: "fusion_th s = S_send now \<Longrightarrow> fdi_th s = F_recv
    \<Longrightarrow> sys_step env lk s (s\<lparr>fusion_th := S_fuse now, fdi_th := F_turn now pair_order\<rparr>)"
| notify_lost: "fusion_th s = S_send now \<Longrightarrow> lossy lk \<Longrightarrow> sys_step env lk s (s\<lparr>fusion_th := S_fuse now\<rparr>)"
| read_first: "fusion_th s = S_fuse now
    \<Longrightarrow> sys_step env lk s (s\<lparr>fusion_th := S_second now (read_contributor (g_mgr (glob s)) (g_us1_ctx (glob s)) now)\<rparr>)"
| read_second: "fusion_th s = S_second now a
    \<Longrightarrow> sys_step env lk s (s\<lparr>fusion_th := S_combine now a (read_contributor (g_mgr (glob s)) (g_us2_ctx (glob s)) now)\<rparr>)"
| fuse: "fusion_th s = S_combine now a b \<Longrightarrow> fusion_combine (g_fusion (glob s)) a b
      (read_long_accel (g_mgr (glob s)) (g_imu1_ctx (glob s)) (g_imu2_ctx (glob s)) now) now = (fs, r)
    \<Longrightarrow> sys_step env lk s (s\<lparr>glob := (glob s)\<lparr>g_fusion := fs\<rparr>, dashboard := dashboard s @ [r], fusion_th := S_show r\<rparr>)"
| display: "fusion_th s = S_show r \<Longrightarrow> sys_step env lk s
      (s\<lparr>screen := screen s @ [parking_line r, status_line (glob s)], fusion_th := S_sleep\<rparr>)"
| nap: "fusion_th s = S_sleep
    \<Longrightarrow> sys_step env lk s (s\<lparr>wld := loop_sleep (wld s), fusion_th := again s (S_poll pair_order) S_gone\<rparr>)"
| begin_turn: "fdi_th s = F_turn now (i # is) \<Longrightarrow> ctx_for_id (glob s) i = Some c
    \<Longrightarrow> sys_step env lk s (s\<lparr>fdi_th := F_check i (state c) (detect_start (buf_for_id (glob s) i)) now is\<rparr>)"
| check: "fdi_th s = F_check i b p now is \<Longrightarrow> \<not> decided p \<Longrightarrow> ctx_for_id (glob s) i = Some c
    \<Longrightarrow> sys_step env lk s (s\<lparr>fdi_th := F_check i b
          (detect_step c (buf_for_id (glob s) i) (buf_for_id (glob s) (sensor_redundant_pair i)) now p) now is\<rparr>)"
| judge: "fdi_th s = F_check i b (D_done d) now is
    \<Longrightarrow> sys_step env lk s (s\<lparr>glob := judge_pair (glob s) i b d, fdi_th := F_isolate i b d now is\<rparr>)"
| isolate: "fdi_th s = F_isolate i b d now is
    \<Longrightarrow> sys_step env lk s (s\<lparr>glob := conclude_pair (glob s) i b d, fdi_th := F_event i now is\<rparr>)"
| build_event: "fdi_th s = F_event i now is \<Longrightarrow> pair_event (glob s) i now = Some ev
    \<Longrightarrow> sys_step env lk s (s\<lparr>fdi_th := F_log ev now is\<rparr>)"
| cycle_end: "fdi_th s = F_turn now [] \<Longrightarrow> sys_step env lk s (s\<lparr>fdi_th := again s F_recv F_gone\<rparr>)"
| log_event: "fdi_th s = F_log ev now is \<Longrightarrow> fdi_to_logger lk \<Longrightarrow> logger_th s = L_recv
    \<Longrightarrow> sys_step env lk s (s\<lparr>fdi_th := F_wake ev now is, logger_th := L_write ev\<rparr>)"
| log_skip: "fdi_th s = F_log ev now is \<Longrightarrow> \<not> fdi_to_logger lk \<or> lossy lk
    \<Longrightarrow> sys_step env lk s (s\<lparr>fdi_th := F_wake ev now is\<rparr>)"
| wake: "fdi_th s = F_wake ev now is \<Longrightarrow> needs_recovery (ev_state ev) \<and> fdi_to_recovery lk \<Longrightarrow> recovery_th s = R_recv
    \<Longrightarrow> sys_step env lk s (s\<lparr>fdi_th := F_turn now is, recovery_th := R_handle ev\<rparr>)"
| wake_skip: "fdi_th s = F_wake ev now is \<Longrightarrow> \<not> (needs_recovery (ev_state ev) \<and> fdi_to_recovery lk) \<or> lossy lk
    \<Longrightarrow> sys_step env lk s (s\<lparr>fdi_th := F_turn now is\<rparr>)"
| recover: "recovery_th s = R_handle ev \<Longrightarrow> recovery_switch (recovery_to_logger lk) (glob s) ev = Some (g, evs)
    \<Longrightarrow> sys_step env lk s (s\<lparr>glob := g, recovery_th := R_log evs\<rparr>)"
| begin_probe: "recovery_th s = R_handle ev \<Longrightarrow> recovery_switch (recovery_to_logger lk) (glob s) ev = None
    \<Longrightarrow> ctx_for_id (glob s) (ev_id ev) = Some c
    \<Longrightarrow> sys_step env lk s (s\<lparr>recovery_th := R_check ev (detect_start (buf_for_id (glob s) (ctx_id c)))\<rparr>)"
| probe_check: "recovery_th s = R_check ev p \<Longrightarrow> \<not> decided p \<Longrightarrow> ctx_for_id (glob s) (ev_id ev) = Some c
    \<Longrightarrow> sys_step env lk s (s\<lparr>recovery_th := R_check ev
          (detect_step c (buf_for_id (glob s) (ctx_id c)) (buf_for_id (glob s) (redundant_id c)) (ev_timestamp ev) p)\<rparr>)"
| finish_probe: "recovery_th s = R_check ev (D_done d)
    \<Longrightarrow> sys_step env lk s (s\<lparr>glob := recovery_finish (glob s) ev d, recovery_th := R_log []\<rparr>)"
| log_recovery: "recovery_th s = R_log (ev # evs) \<Longrightarrow> logger_th s = L_recv
    \<Longrightarrow> sys_step env lk s (s\<lparr>recovery_th := R_log evs, logger_th := L_write ev\<rparr>)"
| log_recovery_lost: "recovery_th s = R_log (ev # evs) \<Longrightarrow> lossy lk \<Longrightarrow> sys_step env lk s (s\<lparr>recovery_th := R_log evs\<rparr>)"
| recovery_end: "recovery_th s = R_log [] \<Longrightarrow> sys_step env lk s (s\<lparr>recovery_th := again s R_recv R_gone\<rparr>)"
| write_line: "logger_th s = L_write ev \<Longrightarrow> logger_handle (table s) ev = (t, l)
    \<Longrightarrow> sys_step env lk s (s\<lparr>table := t, timeline := timeline s @ log_out l, logger_th := again s L_recv L_gone\<rparr>)"

abbreviation runs :: "mgr_env \<Rightarrow> links \<Rightarrow> system \<Rightarrow> system \<Rightarrow> bool" where
  "runs env lk \<equiv> (sys_step env lk)\<^sup>*\<^sup>*"

text \<open>A run whose states, but the last perhaps, satisfy \<open>P\<close>.\<close>

abbreviation runs_while :: "mgr_env \<Rightarrow> links \<Rightarrow> (system \<Rightarrow> bool) \<Rightarrow> system \<Rightarrow> system \<Rightarrow> bool" where
  "runs_while env lk P \<equiv> (\<lambda>s s'. sys_step env lk s s' \<and> P s)\<^sup>*\<^sup>*"

lemma launch_frame [simp]:
  "glob (launch ok t s) = glob s" "wld (launch ok t s) = wld s" "running (launch ok t s) = running s"
  "main_th (launch ok t s) = main_th s" "table (launch ok t s) = table s" "timeline (launch ok t s) = timeline s"
  "dashboard (launch ok t s) = dashboard s" "screen (launch ok t s) = screen s" "prio (launch ok t s) = prio s"
  by (simp_all add: launch_def split: thread_name.split)

lemma launch_points [simp]:
  "fusion_th (launch ok t s) = (if ok \<and> t = Sensor_Thread then S_start else fusion_th s)"
  "fdi_th (launch ok t s) = (if ok \<and> t = Fdi_Thread then F_start else fdi_th s)"
  "recovery_th (launch ok t s) = (if ok \<and> t = Recovery_Thread then R_start else recovery_th s)"
  "logger_th (launch ok t s) = (if ok \<and> t = Logger_Thread then L_start else logger_th s)"
  by (simp_all add: launch_def split: thread_name.split)

lemma raise_prio_frame [simp]:
  "glob (raise_prio lk t s) = glob s" "wld (raise_prio lk t s) = wld s" "running (raise_prio lk t s) = running s"
  "main_th (raise_prio lk t s) = main_th s" "table (raise_prio lk t s) = table s"
  "timeline (raise_prio lk t s) = timeline s" "dashboard (raise_prio lk t s) = dashboard s"
  "screen (raise_prio lk t s) = screen s" "fusion_th (raise_prio lk t s) = fusion_th s"
  "fdi_th (raise_prio lk t s) = fdi_th s" "recovery_th (raise_prio lk t s) = recovery_th s"
  "logger_th (raise_prio lk t s) = logger_th s"
  "prio (raise_prio lk t s) u = (if u = t then set_prio lk t (prio s t) else prio s u)"
  by (simp_all add: raise_prio_def)

lemma set_point_same [simp]:
  "fdi_th s = p \<Longrightarrow> s\<lparr>fdi_th := p\<rparr> = s" "recovery_th s = q \<Longrightarrow> s\<lparr>recovery_th := q\<rparr> = s"
  "logger_th s = r \<Longrightarrow> s\<lparr>logger_th := r\<rparr> = s"
  by (cases s; simp)+

lemma again_running [simp]: "running s \<Longrightarrow> again s p q = p"
  by (simp add: again_def)

section \<open>Which threads there are\<close>

fun waiting :: "system \<Rightarrow> thread_name \<Rightarrow> bool" where
  "waiting s Sensor_Thread = (fusion_th s = S_off)"
| "waiting s Fdi_Thread = (fdi_th s = F_off)"
| "waiting s Recovery_Thread = (recovery_th s = R_off)"
| "waiting s Logger_Thread = (logger_th s = L_off)"

fun starting :: "system \<Rightarrow> thread_name \<Rightarrow> bool" where
  "starting s Sensor_Thread = (fusion_th s = S_start)"
| "starting s Fdi_Thread = (fdi_th s = F_start)"
| "starting s Recovery_Thread = (recovery_th s = R_start)"
| "starting s Logger_Thread = (logger_th s = L_start)"

fun to_create :: "main_thread \<Rightarrow> thread_name list" where
  "to_create (M_create ts) = ts"
| "to_create _ = []"

lemma create_next:
  assumes "t # ts = drop k create_order"
  shows "ts = drop (Suc k) create_order" "t \<notin> set ts"
proof -
  show ts: "ts = drop (Suc k) create_order" using assms by (metis drop_Suc list.sel(3) tl_drop)
  have "distinct (t # ts)" unfolding assms by (rule distinct_drop) (simp add: create_order_def)
  then show "t \<notin> set ts" by simp
qed

lemma launch_waiting: "waiting (launch ok t s) u = (waiting s u \<and> \<not> (ok \<and> u = t))"
  by (cases u) auto

lemma launch_starting: "starting (launch ok t s) u = (ok \<and> u = t \<or> starting s u)"
  by (cases u) auto

lemma main_points [simp]:
  "waiting (s\<lparr>main_th := m\<rparr>) t = waiting s t" "starting (s\<lparr>main_th := m\<rparr>) t = starting s t"
  by (cases t; simp)+

section \<open>The invariant\<close>

definition result_ok :: "fusion_result \<Rightarrow> bool" where
  "result_ok r = (valid r = (mode r \<noteq> OP_UNSAFE)
     \<and> (mode r = OP_FULL \<or> mode r = OP_DEGRADED_SINGLE \<longrightarrow>
          f32_le f32_0 (safe_distance_cm r) \<and> f32_le (safe_distance_cm r) (distance_cm r)
          \<and> f32_le (distance_cm r) MAX_DISTANCE_CM))"

fun fdi_thread_ok :: "fdi_thread \<Rightarrow> bool" where
  "fdi_thread_ok F_off = True"
| "fdi_thread_ok F_gone = False"
| "fdi_thread_ok F_start = True"
| "fdi_thread_ok F_recv = True"
| "fdi_thread_ok (F_turn now is) = (list_all real_sensor is \<and> length is \<le> 4)"
| "fdi_thread_ok (F_check i b p now is) = (real_sensor i \<and> list_all real_sensor is \<and> length is \<le> 3)"
| "fdi_thread_ok (F_isolate i b d now is) = (real_sensor i \<and> list_all real_sensor is \<and> length is \<le> 3)"
| "fdi_thread_ok (F_event i now is) = (real_sensor i \<and> list_all real_sensor is \<and> length is \<le> 3)"
| "fdi_thread_ok (F_log ev now is) = (real_sensor (ev_id ev) \<and> list_all real_sensor is \<and> length is \<le> 3)"
| "fdi_thread_ok (F_wake ev now is) = (real_sensor (ev_id ev) \<and> list_all real_sensor is \<and> length is \<le> 3)"

fun fusion_thread_ok :: "fusion_thread \<Rightarrow> bool" where
  "fusion_thread_ok (S_second now a) = contrib_ok a"
| "fusion_thread_ok (S_combine now a b) = (contrib_ok a \<and> contrib_ok b)"
| "fusion_thread_ok S_gone = False"
| "fusion_thread_ok _ = True"

fun recovery_thread_ok :: "recovery_thread \<Rightarrow> bool" where
  "recovery_thread_ok (R_handle ev) = real_sensor (ev_id ev)"
| "recovery_thread_ok (R_check ev p) = real_sensor (ev_id ev)"
| "recovery_thread_ok (R_log evs) = (length evs \<le> 2)"
| "recovery_thread_ok R_recv = True"
| "recovery_thread_ok R_start = True"
| "recovery_thread_ok R_off = True"
| "recovery_thread_ok R_gone = False"

fun main_thread_ok :: "main_thread \<Rightarrow> bool" where
  "main_thread_ok (M_create ts) = (length ts \<le> 4)"
| "main_thread_ok (M_join ts) = (ts = join_order)"
| "main_thread_ok (M_exit rc) = False"

text \<open>
  What the detector and the recovery thread rely on between two of their steps: the state the detector
  read is still the sensor's unless the recovery thread owned it, the probe the recovery thread
  evaluates is still running, and a sensor is FAULTED only while the detector is about to isolate it.
\<close>

definition fdi_relies :: "system \<Rightarrow> bool" where
  "fdi_relies s = (case fdi_th s of
       F_check i b p now is \<Rightarrow> b \<noteq> STATE_FAULTED
         \<and> (needs_recovery b \<or> (\<exists>c. ctx_for_id (glob s) i = Some c \<and> state c = b))
     | F_isolate i b d now is \<Rightarrow> b \<noteq> STATE_FAULTED
     | _ \<Rightarrow> True)"

text \<open>A probe that is waiting for its verdict.\<close>

definition awaits :: "fdi_context \<Rightarrow> recovery_sup \<Rightarrow> u64 \<Rightarrow> bool" where
  "awaits c v now = (probing c \<and> \<not> now - probe_started_us v > RECOVERY_TIMEOUT_US)"

definition recovery_relies :: "system \<Rightarrow> bool" where
  "recovery_relies s = (case recovery_th s of
       R_check ev p \<Rightarrow> \<exists>c v. life_of (glob s) (ev_id ev) = Some (c, v) \<and> awaits c v (ev_timestamp ev)
     | _ \<Rightarrow> True)"

fun isolating :: "fdi_thread \<Rightarrow> sensor_id \<Rightarrow> bool" where
  "isolating (F_isolate j b d now is) i = (j = i \<and> \<not> needs_recovery b)"
| "isolating _ i = False"

definition faults_isolated :: "system \<Rightarrow> bool" where
  "faults_isolated s = (\<forall>i c. ctx_for_id (glob s) i = Some c \<longrightarrow> state c = STATE_FAULTED \<longrightarrow> isolating (fdi_th s) i)"

text \<open>\<open>main\<close> creates the threads in its order, and what is still to be created does not run.\<close>

definition creating :: "system \<Rightarrow> bool" where
  "creating s = ((\<exists>k. to_create (main_th s) = drop k create_order) \<and> (\<forall>t\<in>set (to_create (main_th s)). waiting s t))"

definition sys_inv :: "system \<Rightarrow> bool" where
  [c_inv]: "sys_inv s = (globals_inv (glob s) \<and> length (table s) = 4 \<and> running s
     \<and> main_thread_ok (main_th s) \<and> fusion_thread_ok (fusion_th s) \<and> fdi_thread_ok (fdi_th s) \<and> recovery_thread_ok (recovery_th s) \<and> list_all result_ok (dashboard s)
     \<and> creating s \<and> fdi_relies s \<and> recovery_relies s \<and> faults_isolated s)"

lemma globals_inv_at:
  assumes "globals_inv g" "real_sensor i" "life_inv (c, v)" "ctx_id c = i" "g_mgr g' = g_mgr g" "length (g_sup g') = 4"
    and "\<And>j. real_sensor j \<Longrightarrow> life_of g' j = (if j = i then Some (c, v) else life_of g j)"
  shows "globals_inv g'"
proof -
  have "\<exists>c v. life_of g' j = Some (c, v) \<and> ctx_id c = j \<and> life_inv (c, v)" if "real_sensor j" for j
    using globals_invD [OF assms(1) that] assms(7) [OF that] assms(3,4) by (metis (no_types))
  then show ?thesis using assms(1,5,6) by (simp add: globals_inv_def pair_order_real)
qed

lemma globals_inv_put_life:
  "globals_inv g \<Longrightarrow> real_sensor i \<Longrightarrow> life_inv (c, v) \<Longrightarrow> ctx_id c = i \<Longrightarrow> globals_inv (put_life g i c v)"
  by (rule globals_inv_at [of g i c v]) (auto simp: globals_inv_def)

lemma globals_inv_put_ctx:
  assumes "globals_inv g" "life_of g i = Some (c0, v)" "life_inv (c, v)" "ctx_id c = i"
  shows "globals_inv (put_ctx g i c)"
proof (rule globals_inv_at [OF assms(1) life_ofE(3) [OF assms(2)] assms(3,4)])
  show "life_of (put_ctx g i c) j = (if j = i then Some (c, v) else life_of g j)" if "real_sensor j" for j
    using that life_ofE(2,3) [OF assms(2)] by simp
qed (use assms(1) in \<open>simp_all add: globals_inv_def\<close>)

lemma judge_sensor_frame [simp]: "ctx_id (judge_sensor c b d) = ctx_id c" "redundant_id (judge_sensor c b d) = redundant_id c"
  by (simp_all add: judge_sensor_def split: sensor_state.split)

lemma conclude_sensor_frame [simp]:
  "ctx_id (conclude_sensor c b d) = ctx_id c" "redundant_id (conclude_sensor c b d) = redundant_id c"
  "last_fault (conclude_sensor c b d) = d"
  by (simp_all add: conclude_sensor_def isolate_if_faulted_def split: sensor_state.split)

lemma finish_probe_frame:
  "finish_probe c v d = (c', v') \<Longrightarrow> ctx_id c' = ctx_id c \<and> redundant_id c' = redundant_id c"
  by (auto simp: finish_probe_def Let_def split: if_splits)

lemma finish_probe_inv: "finish_probe c v d = (c', v') \<Longrightarrow> life_inv (c, v) \<Longrightarrow> life_inv (c', v')"
  by (auto simp: finish_probe_def Let_def life_inv_def sup_inv_def intro: probe_ctx_inv split: if_splits)

lemma finish_probe_not_faulted: "finish_probe c v d = (c', v') \<Longrightarrow> probing c \<Longrightarrow> state c' \<noteq> STATE_FAULTED"
  by (auto simp: finish_probe_def probing_def probe_ctx_def Let_def split: if_splits)

lemma recover_switch_None: "(recover_switch up c v now = None) = awaits c v now"
  by (cases "state c") (auto simp: recover_switch_def awaits_def probing_def)

lemma recover_switch_on: "recover_switch up c v now = Some r \<Longrightarrow> recover_on up c v d now = r"
  by (simp add: recover_on_def)

lemma recover_finish_on:
  "awaits c v now \<Longrightarrow> finish_probe c v d = (c', v') \<Longrightarrow> recover_on up c v d now = (c', v', [])"
  using recover_switch_None [of up c v now] by (simp add: recover_on_def)

lemma recover_on_events: "recover_on up c v d now = (c', v', evs) \<Longrightarrow> length evs \<le> 2"
  by (cases rule: recover_on_cases, assumption)
    (auto simp: abandon_probe_def log_recovery_event_def Let_def split: if_splits)

lemma pair_event_id:
  assumes "globals_inv g" "real_sensor i" "pair_event g i now = Some ev"
  shows "ev_id ev = i"
proof -
  obtain c v where "life_of g i = Some (c, v)" "ctx_id c = i"
    using globals_invD [OF assms(1,2)] by metis
  then show ?thesis using assms(3) by (auto simp: pair_event_def life_of_def event_of_def)
qed

end
