(* ===== verification/Thread_Invariant.thy ===== *)
theory Thread_Invariant
  imports Thread_System
begin

text \<open>
  The invariant of the threads of \<open>src/main.c\<close> under every step, with what the detector and the
  recovery thread rely on while they are between two of their own steps; the reachable states; and
  which threads there are.
\<close>

section \<open>The invariant under every step\<close>

lemma range_ctx_globals:
  assumes "globals_inv g"
  shows "range_ctx (g_mgr g) (g_us1_ctx g)" "range_ctx (g_mgr g) (g_us2_ctx g)"
  using globals_invD [OF assms, of SENSOR_US1] globals_invD [OF assms, of SENSOR_US2] assms
  by (auto simp: range_ctx_def globals_inv_def life_of_def real_sensor_iff)

lemma fusion_result_ok:
  assumes "contrib_ok a" "contrib_ok b" "fusion_combine fs a b acc now = (fs', r)"
  shows "result_ok r"
  using combine_ladder [OF assms(3)] combine_ranges [OF assms] by (auto simp: result_ok_def)

lemma globals_inv_mgr: "globals_inv g \<Longrightarrow> mgr_inv m \<Longrightarrow> globals_inv (g\<lparr>g_mgr := m\<rparr>)"
  by (auto simp: globals_inv_def life_of_def pair_order_def)

lemma globals_inv_fusion: "globals_inv (g\<lparr>g_fusion := f\<rparr>) = globals_inv g"
  by (auto simp: globals_inv_def life_of_def pair_order_def)

lemma logger_handle_length: "length tbl = 4 \<Longrightarrow> logger_handle tbl ev = (t, l) \<Longrightarrow> length t = 4"
  using logger_handle_table [of tbl ev] by simp

lemma sys_inv_globals: "sys_inv s \<Longrightarrow> globals_inv (glob s)"
  by (simp add: sys_inv_def)

text \<open>The context and the record a thread works on, at each point at which it writes them.\<close>

lemma sensor_life:
  assumes "sys_inv s" "real_sensor i"
  obtains c v where "life_of (glob s) i = Some (c, v)" "ctx_for_id (glob s) i = Some c" "ctx_id c = i"
    "redundant_id c = sensor_redundant_pair i" "life_inv (c, v)"
  using globals_invD [OF sys_inv_globals [OF assms(1)] assms(2)] life_ofE by metis

lemma judge_effect:
  assumes "sys_inv s" "fdi_th s = F_check i b p now is"
  obtains c v where "life_of (glob s) i = Some (c, v)" "ctx_for_id (glob s) i = Some c" "life_inv (c, v)" "ctx_id c = i"
    "real_sensor i" "judge_pair (glob s) i b d = put_ctx (glob s) i (judge_sensor c b d)"
    "b \<noteq> STATE_FAULTED" "needs_recovery b \<or> state c = b" "state c \<noteq> STATE_FAULTED"
proof -
  have i: "real_sensor i" using assms by (simp add: sys_inv_def)
  obtain c v where x: "life_of (glob s) i = Some (c, v)" "ctx_for_id (glob s) i = Some c" "ctx_id c = i" "life_inv (c, v)"
    using sensor_life [OF assms(1) i] by metis
  then show ?thesis
    using that [of c v] judge_pair_put [of "glob s" i c v b d] i assms
    by (auto simp: sys_inv_def fdi_relies_def faults_isolated_def)
qed

lemma isolate_effect:
  assumes "sys_inv s" "fdi_th s = F_isolate i b d now is"
  obtains c v where "life_of (glob s) i = Some (c, v)" "ctx_for_id (glob s) i = Some c" "life_inv (c, v)" "ctx_id c = i"
    "real_sensor i" "conclude_pair (glob s) i b d = put_ctx (glob s) i (conclude_sensor c b d)"
    "b \<noteq> STATE_FAULTED" "needs_recovery b \<longrightarrow> state c \<noteq> STATE_FAULTED"
proof -
  have i: "real_sensor i" using assms by (simp add: sys_inv_def)
  obtain c v where x: "life_of (glob s) i = Some (c, v)" "ctx_for_id (glob s) i = Some c" "ctx_id c = i" "life_inv (c, v)"
    using sensor_life [OF assms(1) i] by metis
  then show ?thesis
    using that [of c v] conclude_pair_put [of "glob s" i c v b d] i assms
    by (auto simp: sys_inv_def fdi_relies_def faults_isolated_def)
qed

lemma recover_effect:
  assumes "sys_inv s" "recovery_th s = R_handle ev" "recovery_switch up (glob s) ev = Some (g, evs)"
  obtains c v c' v' where "life_of (glob s) (ev_id ev) = Some (c, v)" "ctx_for_id (glob s) (ev_id ev) = Some c"
    "life_inv (c, v)" "ctx_id c = ev_id ev" "real_sensor (ev_id ev)"
    "recover_switch up c v (ev_timestamp ev) = Some (c', v', evs)" "g = put_life (glob s) (ev_id ev) c' v'"
proof -
  have i: "real_sensor (ev_id ev)" using assms by (simp add: sys_inv_def)
  obtain c v where x: "life_of (glob s) (ev_id ev) = Some (c, v)" "ctx_for_id (glob s) (ev_id ev) = Some c"
      "ctx_id c = ev_id ev" "life_inv (c, v)"
    using sensor_life [OF assms(1) i] by metis
  have "map_option (\<lambda>(c', v', evs). (put_life (glob s) (ev_id ev) c' v', evs))
      (recover_switch up c v (ev_timestamp ev)) = Some (g, evs)"
    using recovery_switch_put [OF x(1), of up] assms(3) by simp
  then show ?thesis using that [of c v] x i by auto
qed

lemma finish_effect:
  assumes "sys_inv s" "recovery_th s = R_check ev p"
  obtains c v c' v' where "life_of (glob s) (ev_id ev) = Some (c, v)" "ctx_for_id (glob s) (ev_id ev) = Some c"
    "life_inv (c, v)" "ctx_id c = ev_id ev" "redundant_id c = sensor_redundant_pair (ev_id ev)" "real_sensor (ev_id ev)"
    "awaits c v (ev_timestamp ev)" "finish_probe c v d = (c', v')"
    "recovery_finish (glob s) ev d = put_life (glob s) (ev_id ev) c' v'"
proof -
  have i: "real_sensor (ev_id ev)" using assms by (simp add: sys_inv_def)
  obtain c v where x: "life_of (glob s) (ev_id ev) = Some (c, v)" "ctx_for_id (glob s) (ev_id ev) = Some c"
      "ctx_id c = ev_id ev" "life_inv (c, v)" "redundant_id c = sensor_redundant_pair (ev_id ev)"
    using sensor_life [OF assms(1) i] by metis
  obtain c' v' where f: "finish_probe c v d = (c', v')" by fastforce
  show ?thesis
    using that [OF x(1,2,4,3,5) i _ f recovery_finish_put [OF x(1) f]] x assms by (auto simp: sys_inv_def recovery_relies_def)
qed

lemma ctx_for_id_frame [simp]:
  "ctx_for_id (g\<lparr>g_mgr := m\<rparr>) i = ctx_for_id g i" "ctx_for_id (g\<lparr>g_fusion := f\<rparr>) i = ctx_for_id g i"
  "life_of (g\<lparr>g_mgr := m\<rparr>) i = life_of g i" "life_of (g\<lparr>g_fusion := f\<rparr>) i = life_of g i"
  by (cases i; simp add: life_of_def)+

lemma ctx_for_put_life [simp]:
  "ctx_for_id (put_life g i c v) j = (if j = i \<and> real_sensor i then Some c else ctx_for_id g j)"
  by (simp add: put_life_def)

lemma globals_step:
  assumes "sys_step env lk s s'" "sys_inv s"
  shows "globals_inv (glob s')"
proof -
  have g: "globals_inv (glob s)" by (rule sys_inv_globals [OF assms(2)])
  from assms(1) show ?thesis
  proof (cases rule: sys_step.cases)
    case (poll i "is" m w1)
    then show ?thesis using poll_sensor_inv [OF poll(3)] g by (simp add: globals_inv_mgr) (simp add: globals_inv_def)
  next
    case (judge i b d now "is")
    obtain c v where x: "life_of (glob s) i = Some (c, v)" "life_inv (c, v)" "ctx_id c = i" "real_sensor i"
        "judge_pair (glob s) i b d = put_ctx (glob s) i (judge_sensor c b d)"
      using judge_effect [OF assms(2) judge(2)] by metis
    show ?thesis
      using globals_inv_put_ctx [OF g x(1), of "judge_sensor c b d"] x judge(1)
      by (simp add: life_inv_def judge_sensor_inv)
  next
    case (isolate i b d now "is")
    obtain c v where x: "life_of (glob s) i = Some (c, v)" "life_inv (c, v)" "ctx_id c = i" "real_sensor i"
        "conclude_pair (glob s) i b d = put_ctx (glob s) i (conclude_sensor c b d)"
      using isolate_effect [OF assms(2) isolate(2)] by metis
    show ?thesis
      using globals_inv_put_ctx [OF g x(1), of "conclude_sensor c b d"] x isolate(1)
      by (simp add: life_inv_def conclude_sensor_inv)
  next
    case (recover ev g' evs)
    obtain c v c' v' where x: "life_inv (c, v)" "ctx_id c = ev_id ev" "real_sensor (ev_id ev)"
        "recover_switch (recovery_to_logger lk) c v (ev_timestamp ev) = Some (c', v', evs)"
        "g' = put_life (glob s) (ev_id ev) c' v'"
      using recover_effect [OF assms(2) recover(2,3)] by metis
    note r = recover_switch_on [OF x(4), of FAULT_NONE]
    have "life_inv (c', v')" "ctx_id c' = ev_id ev"
      using recover_on_inv [OF r] recover_on_frame [OF r] x(1,2) by (simp_all add: life_inv_def)
    then show ?thesis using globals_inv_put_life [OF g x(3), of c' v'] x(5) recover(1) by simp
  next
    case (finish_probe ev d)
    obtain c v c' v' where x: "life_inv (c, v)" "ctx_id c = ev_id ev" "real_sensor (ev_id ev)"
        "finish_probe c v d = (c', v')" "recovery_finish (glob s) ev d = put_life (glob s) (ev_id ev) c' v'"
      using finish_effect [OF assms(2) finish_probe(2)] by metis
    then show ?thesis
      using globals_inv_put_life [OF g x(3) finish_probe_inv [OF x(4,1)]] finish_probe_frame [OF x(4)] finish_probe(1) by simp
  qed (use g assms(2) in \<open>auto simp: globals_inv_fusion sys_inv_def\<close>)
qed

text \<open>What \<open>main\<close> still has to create.\<close>

lemma creating_step:
  assumes "sys_step env lk s s'" "sys_inv s"
  shows "creating s'"
proof -
  have r: "creating s" using assms(2) by (simp add: sys_inv_def)
  have keep: "creating s'" if "to_create (main_th s') = to_create (main_th s)"
      "fusion_th s = S_off \<longrightarrow> fusion_th s' = S_off" "fdi_th s = F_off \<longrightarrow> fdi_th s' = F_off"
      "recovery_th s = R_off \<longrightarrow> recovery_th s' = R_off" "logger_th s = L_off \<longrightarrow> logger_th s' = L_off"
  proof -
    have "waiting s t \<Longrightarrow> waiting s' t" for t using that by (cases t) simp_all
    then show ?thesis using r that(1) by (simp add: creating_def)
  qed
  from assms(1) show ?thesis
  proof (cases rule: sys_step.cases)
    case (create t ts)
    obtain k where k: "t # ts = drop k create_order" using r create(2) by (auto simp: creating_def)
    have "\<exists>k. ts = drop k create_order" using create_next(1) [OF k] by blast
    moreover have "\<forall>u\<in>set ts. waiting s u" using r create(2) by (simp add: creating_def)
    moreover have "t \<notin> set ts" by (rule create_next(2) [OF k])
    ultimately show ?thesis using create(1) by (auto simp: creating_def launch_waiting)
  next
    case (join t ts)
    then show ?thesis using assms(2) by (cases t) (auto simp: sys_inv_def join_order_def)
  next
    case (shut_down m w1)
    then show ?thesis using assms(2) by (simp add: sys_inv_def)
  qed (rule keep; simp)+
qed

text \<open>What the detector relies on.\<close>

lemma finish_probe_edge:
  "finish_probe c v d = (c', v') \<Longrightarrow> state c' = state c \<or> fsm_edge (state c) (state c')"
  using probe_ctx_edge [of c d] by (auto simp: finish_probe_def Let_def split: if_splits)

text \<open>The recovery thread leaves a sensor in service alone.\<close>

lemma recover_switch_serving:
  "recover_switch up c v now = Some (c', v', evs) \<Longrightarrow> needs_recovery (state c) \<or> c' = c"
  by (cases "state c") (auto simp: recover_switch_def needs_recovery_def)

lemma awaits_recovery: "awaits c v now \<Longrightarrow> needs_recovery (state c)"
  by (auto simp: awaits_def probing_def needs_recovery_def)

lemma fdi_relies_step:
  assumes "sys_step env lk s s'" "sys_inv s"
  shows "fdi_relies s'"
proof -
  have r: "fdi_relies s" using assms(2) by (simp add: sys_inv_def)
  from assms(1) show ?thesis
  proof (cases rule: sys_step.cases)
    case (begin_turn now i "is" c)
    then show ?thesis
      using assms(2) by (auto simp: fdi_relies_def sys_inv_def faults_isolated_def)
  next
    case (judge i b d now "is")
    then show ?thesis using r by (auto simp: fdi_relies_def)
  next
    case (recover ev g evs)
    obtain c v c' v' where x: "ctx_for_id (glob s) (ev_id ev) = Some c" "real_sensor (ev_id ev)"
        "recover_switch (recovery_to_logger lk) c v (ev_timestamp ev) = Some (c', v', evs)"
        "g = put_life (glob s) (ev_id ev) c' v'"
      using recover_effect [OF assms(2) recover(2,3)] by metis
    then show ?thesis
      using r recover(1) recover_switch_serving [OF x(3)] by (auto simp: fdi_relies_def split: fdi_thread.splits)
  next
    case (finish_probe ev d)
    obtain c v c' v' where x: "ctx_for_id (glob s) (ev_id ev) = Some c" "real_sensor (ev_id ev)"
        "awaits c v (ev_timestamp ev)" "recovery_finish (glob s) ev d = put_life (glob s) (ev_id ev) c' v'"
      using finish_effect [OF assms(2) finish_probe(2)] by metis
    then show ?thesis
      using r finish_probe(1) awaits_recovery [OF x(3)] by (auto simp: fdi_relies_def split: fdi_thread.splits)
  qed (use r in \<open>auto simp: fdi_relies_def again_def split: fdi_thread.splits\<close>)
qed

text \<open>What the recovery thread relies on: the detector leaves a sensor out of service alone.\<close>

lemma judge_sensor_state: "needs_recovery (state c) \<Longrightarrow> state (judge_sensor c b d) = state c"
  by (cases "state c") (auto simp: needs_recovery_def judge_sensor_def update_ctx_def split: sensor_state.split)

lemma conclude_sensor_state: "state c \<noteq> STATE_FAULTED \<Longrightarrow> state (conclude_sensor c b d) = state c"
  by (auto simp: conclude_sensor_def isolate_if_faulted_def isolate_ctx_def split: sensor_state.split)

lemma awaits_state: "state c' = state c \<Longrightarrow> awaits c' v now = awaits c v now"
  by (simp add: awaits_def probing_def)

lemma recovery_relies_step:
  assumes "sys_step env lk s s'" "sys_inv s"
  shows "recovery_relies s'"
proof -
  have r: "recovery_relies s" using assms(2) by (simp add: sys_inv_def)
  have keep: "recovery_relies s'"
    if "recovery_th s' = recovery_th s" "life_of (glob s) i = Some (c, v)" "glob s' = put_ctx (glob s) i c'"
      "real_sensor i" "\<And>t. awaits c v t \<Longrightarrow> awaits c' v t" for i c v c'
    using r that life_ofE [OF that(2)] by (auto simp: recovery_relies_def split: recovery_thread.splits)
  from assms(1) show ?thesis
  proof (cases rule: sys_step.cases)
    case (judge i b d now "is")
    obtain c v where x: "life_of (glob s) i = Some (c, v)" "real_sensor i"
        "judge_pair (glob s) i b d = put_ctx (glob s) i (judge_sensor c b d)"
      using judge_effect [OF assms(2) judge(2)] by metis
    have "awaits c v t \<Longrightarrow> awaits (judge_sensor c b d) v t" for t
      using judge_sensor_state [OF awaits_recovery, of c v t b d] awaits_state [of "judge_sensor c b d" c v t] by simp
    then show ?thesis using keep [of i c v "judge_sensor c b d"] judge(1) x by simp
  next
    case (isolate i b d now "is")
    obtain c v where x: "life_of (glob s) i = Some (c, v)" "real_sensor i"
        "conclude_pair (glob s) i b d = put_ctx (glob s) i (conclude_sensor c b d)"
      using isolate_effect [OF assms(2) isolate(2)] by metis
    have "awaits c v t \<Longrightarrow> awaits (conclude_sensor c b d) v t" for t
      using conclude_sensor_state [of c b d] awaits_state [of "conclude_sensor c b d" c v t]
      by (cases "state c = STATE_FAULTED") (simp_all add: awaits_def probing_def)
    then show ?thesis using keep [of i c v "conclude_sensor c b d"] isolate(1) x by simp
  next
    case (begin_probe ev c)
    have "real_sensor (ev_id ev)" using begin_probe(2) assms(2) by (simp add: sys_inv_def)
    then obtain c v where x: "life_of (glob s) (ev_id ev) = Some (c, v)"
      using sensor_life [OF assms(2)] by metis
    then have "awaits c v (ev_timestamp ev)"
      using recovery_switch_put [OF x] begin_probe(3) recover_switch_None by (auto simp: map_option_is_None)
    then show ?thesis using x begin_probe(1) by (simp add: recovery_relies_def)
  qed (use r in \<open>auto simp: recovery_relies_def again_def split: recovery_thread.splits\<close>)
qed

text \<open>No sensor stays FAULTED.\<close>

lemma recover_switch_not_faulted:
  "recover_switch up c v now = Some (c', v', evs) \<Longrightarrow> state c' = STATE_FAULTED \<Longrightarrow> state c = STATE_FAULTED"
  using recover_not_faulted [OF recover_switch_on] by blast

lemma judge_faults: "state (judge_sensor c b d) = STATE_FAULTED \<Longrightarrow> state c \<noteq> STATE_FAULTED \<Longrightarrow> \<not> needs_recovery b"
  by (auto simp: judge_owned)

lemma conclude_not_faulted: "\<not> needs_recovery b \<Longrightarrow> state (conclude_sensor c b d) \<noteq> STATE_FAULTED"
  by (cases b) (auto simp: needs_recovery_def conclude_sensor_def isolate_if_faulted_def isolate_ctx_def)

lemma faults_isolated_step:
  assumes "sys_step env lk s s'" "sys_inv s"
  shows "faults_isolated s'"
proof -
  have r: "faults_isolated s" using assms(2) by (simp add: sys_inv_def)
  from assms(1) show ?thesis
  proof (cases rule: sys_step.cases)
    case (judge i b d now "is")
    obtain c v where x: "ctx_for_id (glob s) i = Some c" "state c \<noteq> STATE_FAULTED" "real_sensor i"
        "judge_pair (glob s) i b d = put_ctx (glob s) i (judge_sensor c b d)"
      using judge_effect [OF assms(2) judge(2)] by metis
    then show ?thesis using r judge judge_faults [OF _ x(2)] by (auto simp: faults_isolated_def)
  next
    case (isolate i b d now "is")
    obtain c v where x: "ctx_for_id (glob s) i = Some c" "needs_recovery b \<longrightarrow> state c \<noteq> STATE_FAULTED" "real_sensor i"
        "conclude_pair (glob s) i b d = put_ctx (glob s) i (conclude_sensor c b d)"
      using isolate_effect [OF assms(2) isolate(2)] by metis
    have "state (conclude_sensor c b d) \<noteq> STATE_FAULTED"
      using x(2) conclude_not_faulted conclude_sensor_state by metis
    then show ?thesis using r isolate x by (auto simp: faults_isolated_def)
  next
    case (recover ev g evs)
    obtain c v c' v' where x: "ctx_for_id (glob s) (ev_id ev) = Some c" "real_sensor (ev_id ev)"
        "recover_switch (recovery_to_logger lk) c v (ev_timestamp ev) = Some (c', v', evs)"
        "g = put_life (glob s) (ev_id ev) c' v'"
      using recover_effect [OF assms(2) recover(2,3)] by metis
    then show ?thesis using r recover recover_switch_not_faulted [OF x(3)] by (auto simp: faults_isolated_def)
  next
    case (finish_probe ev d)
    obtain c v c' v' where x: "ctx_for_id (glob s) (ev_id ev) = Some c" "awaits c v (ev_timestamp ev)"
        "finish_probe c v d = (c', v')" "recovery_finish (glob s) ev d = put_life (glob s) (ev_id ev) c' v'"
      using finish_effect [OF assms(2) finish_probe(2)] by metis
    have "state c' \<noteq> STATE_FAULTED" using finish_probe_not_faulted [OF x(3)] x(2) by (simp add: awaits_def)
    then show ?thesis using r finish_probe x by (auto simp: faults_isolated_def)
  next
    case (create t ts)
    then have "waiting s t" using assms(2) by (simp add: sys_inv_def creating_def)
    then show ?thesis using r create by (auto simp: faults_isolated_def)
  qed (use r in \<open>auto simp: faults_isolated_def again_def\<close>)
qed

lemma sys_step_inv:
  assumes "sys_step env lk s s'" "sys_inv s"
  shows "sys_inv s'"
proof -
  note new = globals_step [OF assms] fdi_relies_step [OF assms] recovery_relies_step [OF assms] faults_isolated_step [OF assms]
    creating_step [OF assms]
  from assms(1) show ?thesis
  proof (cases rule: sys_step.cases)
    case (read_first now)
    then show ?thesis
      using new assms(2) read_contrib_ok [OF range_ctx_globals(1)] by (auto simp: sys_inv_def)
  next
    case (read_second now a)
    then show ?thesis
      using new assms(2) read_contrib_ok [OF range_ctx_globals(2)] by (auto simp: sys_inv_def)
  next
    case (fuse now a b fs r)
    have "result_ok r" using fusion_result_ok [OF _ _ fuse(3)] fuse(2) assms(2) by (simp add: sys_inv_def)
    then show ?thesis using new fuse assms(2) by (simp add: sys_inv_def)
  next
    case (build_event i now "is" ev)
    then show ?thesis using new pair_event_id [of "glob s" i now ev] assms(2) by (auto simp: sys_inv_def)
  next
    case (recover ev g evs)
    obtain c v c' v' where x: "recover_switch (recovery_to_logger lk) c v (ev_timestamp ev) = Some (c', v', evs)"
      using recover_effect [OF assms(2) recover(2,3)] by metis
    have "length evs \<le> 2" using recover_on_events [OF recover_switch_on [OF x]] .
    then show ?thesis using new recover assms(2) by (simp add: sys_inv_def)
  next
    case (write_line ev t l)
    then show ?thesis using new assms(2) by (auto simp: sys_inv_def logger_handle_length)
  qed (use new assms(2) in \<open>auto simp: sys_inv_def pair_order_def real_sensor_iff join_order_def\<close>)
qed

lemma runs_inv: "runs env lk s s' \<Longrightarrow> sys_inv s \<Longrightarrow> sys_inv s'"
  by (induction rule: rtranclp_induct) (auto intro: sys_step_inv)

lemma start_inv:
  assumes "main_init env a b c g0 w0 = (0, g, w)"
  shows "sys_inv (start g w)"
proof -
  note m = main_init_inv [OF assms]
  have "state x = STATE_HEALTHY" if "ctx_for_id g i = Some x" for i x
  proof -
    have "i \<in> set pair_order" using that ctx_for_id_None [of g i] by (auto simp: pair_order_real)
    then show ?thesis using m that by (auto simp: life_of_def)
  qed
  then have "faults_isolated (start g w)" by (auto simp: faults_isolated_def start_def)
  moreover have "waiting (start g w) t" for t by (cases t) (simp_all add: start_def)
  then have "creating (start g w)" by (auto simp: creating_def start_def intro: exI [of _ 0])
  ultimately show ?thesis
    using m by (simp add: sys_inv_def fdi_relies_def recovery_relies_def) (simp add: start_def create_order_def)
qed

text \<open>The states of the program: from a successful start-up, with whatever connections it got.\<close>

inductive reached :: "mgr_env \<Rightarrow> links \<Rightarrow> system \<Rightarrow> bool" for env lk where
  loaded: "main_init env a b c g0 w0 = (0, g, w) \<Longrightarrow> lk = connect_threads os g
    \<Longrightarrow> reached env lk (start g w)"
| moved: "reached env lk s \<Longrightarrow> sys_step env lk s s' \<Longrightarrow> reached env lk s'"

lemma reached_inv: "reached env lk s \<Longrightarrow> sys_inv s"
  by (induction rule: reached.induct) (auto intro: start_inv sys_step_inv)

lemma reached_runs: "runs env lk s s' \<Longrightarrow> reached env lk s \<Longrightarrow> reached env lk s'"
  by (induction rule: rtranclp_induct) (auto intro: reached.moved)

section \<open>Which threads there are\<close>

text \<open>
  \<open>main\<close> creates the threads in its order, and a thread that is past its start has asked for its
  priority.
\<close>

definition created_ok :: "links \<Rightarrow> system \<Rightarrow> bool" where
  "created_ok lk s = ((\<exists>k. to_create (main_th s) = drop k create_order)
     \<and> (\<forall>t. waiting s t = (t \<in> set (to_create (main_th s)) \<or> \<not> created lk t)))"

definition prio_ok :: "links \<Rightarrow> system \<Rightarrow> bool" where
  "prio_ok lk s = (\<forall>t. prio s t = (if waiting s t \<or> starting s t then None else set_prio lk t None))"

lemma created_ok_create:
  assumes "created_ok lk s" "main_th s = M_create (t # ts)"
  shows "created_ok lk (launch (created lk t) t (s\<lparr>main_th := M_create ts\<rparr>))"
proof -
  obtain k where k: "t # ts = drop k create_order" using assms by (auto simp: created_ok_def)
  have "\<exists>k. ts = drop k create_order" using create_next(1) [OF k] by blast
  then show ?thesis
    using assms create_next(2) [OF k] by (simp add: created_ok_def launch_waiting) blast
qed

text \<open>Only \<open>main\<close> ends the waiting of a thread, and only the thread itself its start.\<close>

lemma waiting_step:
  assumes "sys_step env lk s s'" "to_create (main_th s') = to_create (main_th s)" "sys_inv s"
  shows "waiting s' t = waiting s t"
  using assms(1) by (cases rule: sys_step.cases; cases t) (use assms(2,3) in \<open>simp_all add: sys_inv_def\<close>)

lemma prio_step:
  assumes "sys_step env lk s s'" "to_create (main_th s') = to_create (main_th s)" "sys_inv s"
  shows "prio s' t = (if starting s t \<and> \<not> starting s' t then set_prio lk t (prio s t) else prio s t)
    \<and> (starting s' t \<longrightarrow> starting s t)"
  using assms(1) by (cases rule: sys_step.cases; cases t) (use assms(2,3) in \<open>simp_all add: sys_inv_def\<close>)

lemma create_step:
  assumes "sys_step env lk s s'" "sys_inv s"
  obtains "to_create (main_th s') = to_create (main_th s)"
    | t ts where "main_th s = M_create (t # ts)" "s' = launch (created lk t) t (s\<lparr>main_th := M_create ts\<rparr>)"
  using assms(1) by (cases rule: sys_step.cases) (use that assms(2) in \<open>simp_all add: sys_inv_def\<close>)

lemma created_ok_step:
  assumes "sys_step env lk s s'" "created_ok lk s" "sys_inv s"
  shows "created_ok lk s'"
  using assms(1,3)
proof (cases rule: create_step)
  case 1
  then show ?thesis using waiting_step [OF assms(1) 1 assms(3)] assms(2) by (simp add: created_ok_def)
next
  case (2 t ts)
  then show ?thesis using created_ok_create [OF assms(2)] by simp
qed

lemma prio_ok_step:
  assumes "sys_step env lk s s'" "created_ok lk s" "prio_ok lk s" "sys_inv s"
  shows "prio_ok lk s'"
  using assms(1,4)
proof (cases rule: create_step)
  case 1
  show ?thesis
    unfolding prio_ok_def
  proof
    fix t
    have "waiting s t \<Longrightarrow> \<not> starting s t" by (cases t) auto
    then show "prio s' t = (if waiting s' t \<or> starting s' t then None else set_prio lk t None)"
      using prio_step [OF assms(1) 1 assms(4), of t] waiting_step [OF assms(1) 1 assms(4), of t] assms(3)
      by (auto simp: prio_ok_def)
  qed
next
  case (2 t ts)
  have "waiting s t" using assms(2) 2(1) by (simp add: created_ok_def)
  then show ?thesis using 2(2) assms(3) by (auto simp: prio_ok_def launch_waiting launch_starting)
qed

text \<open>With a log file the logger thread stays.\<close>

lemma logger_stays:
  "sys_step env lk s s' \<Longrightarrow> sys_inv s \<Longrightarrow> log_opens lk \<Longrightarrow> logger_th s \<noteq> L_gone \<Longrightarrow> logger_th s' \<noteq> L_gone"
  by (cases rule: sys_step.cases) (auto simp: sys_inv_def split: if_splits)

lemma reached_threads:
  "reached env lk s \<Longrightarrow> created_ok lk s \<and> prio_ok lk s \<and> (log_opens lk \<longrightarrow> logger_th s \<noteq> L_gone)"
proof (induction rule: reached.induct)
  case (loaded a b c g0 w0 g w os)
  have "\<exists>k. create_order = drop k create_order" by (rule exI [of _ 0]) simp
  moreover have "waiting (start g w) t" "t \<in> set create_order" for t
    by (cases t; simp add: start_def create_order_def)+
  ultimately show ?case by (simp add: created_ok_def prio_ok_def) (simp add: start_def)
next
  case (moved s s')
  then show ?case using created_ok_step prio_ok_step logger_stays reached_inv by blast
qed

lemma reached_returned:
  assumes "reached env lk s" "returned s t"
  shows "t = Logger_Thread \<and> \<not> log_opens lk"
  using reached_inv [OF assms(1)] reached_threads [OF assms(1)] assms(2) by (cases t) (auto simp: sys_inv_def)

end
