(* ===== verification/Thread_Progress.thy ===== *)
theory Thread_Progress
  imports Thread_Invariant
begin

text \<open>
  Progress of the four threads: a measure of the work a notification leaves to be done, which every
  step of the detector, the recovery thread and the logger decreases and which is never stuck while
  the logger lives; how the sensor thread reaches its next output; and what remains possible when
  the logger is gone.
\<close>

section \<open>Every message is handled\<close>

text \<open>What the detector, the recovery thread and the logger still have to do for one cycle.\<close>

fun fdi_work :: "fdi_thread \<Rightarrow> nat" where
  "fdi_work F_off = 0"
| "fdi_work F_gone = 0"
| "fdi_work F_start = 1"
| "fdi_work F_recv = 0"
| "fdi_work (F_turn now is) = 1 + 22 * length is"
| "fdi_work (F_check i b p now is) = 16 + detect_work p + 22 * length is"
| "fdi_work (F_isolate i b d now is) = 15 + 22 * length is"
| "fdi_work (F_event i now is) = 14 + 22 * length is"
| "fdi_work (F_log ev now is) = 13 + 22 * length is"
| "fdi_work (F_wake ev now is) = 11 + 22 * length is"

fun recovery_work :: "recovery_thread \<Rightarrow> nat" where
  "recovery_work R_off = 0"
| "recovery_work R_gone = 0"
| "recovery_work R_start = 1"
| "recovery_work R_recv = 0"
| "recovery_work (R_handle ev) = 9"
| "recovery_work (R_check ev p) = 2 + detect_work p"
| "recovery_work (R_log evs) = 1 + 2 * length evs"

fun logger_work :: "logger_thread \<Rightarrow> nat" where
  "logger_work L_start = 1"
| "logger_work (L_write ev) = 1"
| "logger_work _ = 0"

fun main_work :: "main_thread \<Rightarrow> nat" where
  "main_work (M_create ts) = 1 + 2 * length ts"
| "main_work _ = 0"

definition work :: "system \<Rightarrow> nat" where
  "work s = main_work (main_th s) + fdi_work (fdi_th s) + recovery_work (recovery_th s) + logger_work (logger_th s)"

text \<open>A step with no effect is a receive that failed and is tried again.\<close>

lemma step_work:
  assumes "sys_step env lk s s'" "sys_inv s" "fusion_th s' = fusion_th s" "s' \<noteq> s"
  shows "work s' < work s"
  using assms(1)
proof (cases rule: sys_step.cases)
  case (create t ts)
  then show ?thesis using assms(3) by (cases t) (auto simp: work_def)
next
  case (begin_turn now i "is" c)
  then show ?thesis using detect_work_less by (simp add: work_def)
next
  case (check i b p now "is" c)
  then show ?thesis
    using detect_step_work [OF check(3), of c "buf_for_id (glob s) i" "buf_for_id (glob s) (sensor_redundant_pair i)" now]
    by (simp add: work_def)
next
  case (recover ev g evs)
  obtain c v c' v' where x: "recover_switch (recovery_to_logger lk) c v (ev_timestamp ev) = Some (c', v', evs)"
    using recover_effect [OF assms(2) recover(2,3)] by metis
  have "length evs \<le> 2" using recover_on_events [OF recover_switch_on [OF x]] .
  then show ?thesis using recover by (simp add: work_def)
next
  case (begin_probe ev c)
  then show ?thesis using detect_work_less by (simp add: work_def)
next
  case (probe_check ev p c)
  then show ?thesis
    using detect_step_work [OF probe_check(3), of c "buf_for_id (glob s) (ctx_id c)"
        "buf_for_id (glob s) (redundant_id c)" "ev_timestamp ev"]
    by (simp add: work_def)
qed (use assms(2-4) in \<open>auto simp: work_def sys_inv_def join_order_def split: if_splits\<close>)

lemma pair_event_Some: "real_sensor i \<Longrightarrow> \<exists>ev. pair_event g i now = Some ev"
  using ctx_for_id_None [of g i] by (auto simp: pair_event_def)

text \<open>All threads exist, the logger has its file, and the sensor thread is under way.\<close>

definition healthy :: "links \<Rightarrow> system \<Rightarrow> bool" where
  "healthy lk s = (sys_inv s \<and> created_ok lk s \<and> (\<forall>t. created lk t) \<and> log_opens lk
     \<and> logger_th s \<noteq> L_gone \<and> fusion_th s \<noteq> S_off)"

lemma healthyD:
  assumes "healthy lk s"
  shows "sys_inv s" "log_opens lk" "logger_th s \<noteq> L_gone" "logger_th s \<noteq> L_off" "recovery_th s \<noteq> R_off"
    "recovery_th s \<noteq> R_gone" "fdi_th s \<noteq> F_off" "fdi_th s \<noteq> F_gone" "running s"
    "main_th s = M_create [] \<or> main_th s = M_join join_order"
proof -
  have c: "waiting s t = (t \<in> set (to_create (main_th s)))" for t
    using assms by (auto simp: healthy_def created_ok_def)
  obtain k where k: "to_create (main_th s) = drop k create_order"
    using assms by (auto simp: healthy_def created_ok_def)
  have "Sensor_Thread \<notin> set (drop k create_order)"
    using c [of Sensor_Thread] k assms by (auto simp: healthy_def)
  then have e: "to_create (main_th s) = []"
    unfolding k using last_in_set [of "drop k create_order"] last_drop [of k create_order]
    by (cases "k < length create_order") (auto simp: create_order_def)
  show "sys_inv s" "log_opens lk" "logger_th s \<noteq> L_gone" "logger_th s \<noteq> L_off" "recovery_th s \<noteq> R_off"
    "recovery_th s \<noteq> R_gone" "fdi_th s \<noteq> F_off" "fdi_th s \<noteq> F_gone" "running s"
    using assms c [of Logger_Thread] c [of Recovery_Thread] c [of Fdi_Thread] e
    by (auto simp: healthy_def sys_inv_def)
  show "main_th s = M_create [] \<or> main_th s = M_join join_order"
    using e assms by (cases "main_th s") (auto simp: healthy_def sys_inv_def)
qed

lemma healthy_step:
  assumes "sys_step env lk s s'" "healthy lk s"
  shows "healthy lk s'"
proof -
  have "fusion_th s' \<noteq> S_off"
    using assms(1) by (cases rule: sys_step.cases) (use healthyD [OF assms(2)] assms(2) in \<open>simp_all add: healthy_def\<close>)
  then show ?thesis
    using assms(2) sys_step_inv [OF assms(1)] created_ok_step [OF assms(1)] logger_stays [OF assms(1)]
    by (simp add: healthy_def)
qed

lemma healthy_runs: "runs env lk s s' \<Longrightarrow> healthy lk s \<Longrightarrow> healthy lk s'"
  by (induction rule: rtranclp_induct) (auto intro: healthy_step)

text \<open>A step of one of the three threads, or of \<open>main\<close>.\<close>

definition moves_on :: "mgr_env \<Rightarrow> links \<Rightarrow> system \<Rightarrow> bool" where
  "moves_on env lk s = (\<exists>s'. sys_step env lk s s' \<and> fusion_th s' = fusion_th s \<and> s' \<noteq> s)"

text \<open>The points of the four threads beside the sensor thread.\<close>

definition points :: "system \<Rightarrow> main_thread \<times> fdi_thread \<times> recovery_thread \<times> logger_thread" where
  "points s = (main_th s, fdi_th s, recovery_th s, logger_th s)"

lemma moves_onI:
  "sys_step env lk s s' \<Longrightarrow> fusion_th s' = fusion_th s \<Longrightarrow> points s' \<noteq> points s \<Longrightarrow> moves_on env lk s"
  by (auto simp: moves_on_def)

lemma logger_moves:
  assumes "logger_th s \<noteq> L_gone" "logger_th s \<noteq> L_off" "logger_th s \<noteq> L_recv" "log_opens lk" "running s"
  shows "moves_on env lk s"
proof (cases "logger_th s")
  case L_start
  show ?thesis
    by (rule moves_onI [OF sys_step.logger_start [OF L_start]]) (use assms L_start in \<open>simp_all add: points_def\<close>)
next
  case (L_write ev)
  obtain t l where "logger_handle (table s) ev = (t, l)" by fastforce
  from sys_step.write_line [OF L_write this] show ?thesis
    by (rule moves_onI) (use assms L_write in \<open>simp_all add: points_def\<close>)
qed (use assms in simp_all)

lemma recovery_moves:
  assumes "logger_th s = L_recv" "recovery_th s \<notin> {R_off, R_gone, R_recv}" "running s"
    and "recovery_thread_ok (recovery_th s)"
  shows "moves_on env lk s"
proof (cases "recovery_th s")
  case R_start
  show ?thesis
    by (rule moves_onI [OF sys_step.recovery_start [OF R_start]]) (use assms R_start in \<open>simp_all add: points_def\<close>)
next
  case (R_handle ev)
  show ?thesis
  proof (cases "recovery_switch (recovery_to_logger lk) (glob s) ev")
    case None
    obtain c where "ctx_for_id (glob s) (ev_id ev) = Some c" using None by (auto simp: recovery_switch_def split: option.splits)
    from sys_step.begin_probe [OF R_handle None this] show ?thesis
      by (rule moves_onI) (use R_handle in \<open>simp_all add: points_def\<close>)
  next
    case (Some r)
    then obtain g evs where "recovery_switch (recovery_to_logger lk) (glob s) ev = Some (g, evs)" by (cases r) auto
    from sys_step.recover [OF R_handle this] show ?thesis
      by (rule moves_onI) (use R_handle in \<open>simp_all add: points_def\<close>)
  qed
next
  case (R_check ev p)
  show ?thesis
  proof (cases "decided p")
    case True
    then obtain d where "p = D_done d" by (auto simp: decided_iff(1))
    from sys_step.finish_probe [OF R_check [unfolded this]] show ?thesis
      by (rule moves_onI) (use R_check in \<open>simp_all add: points_def\<close>)
  next
    case False
    obtain c where c: "ctx_for_id (glob s) (ev_id ev) = Some c"
      using assms(4) R_check ctx_for_id_None [of "glob s" "ev_id ev"] by auto
    let ?q = "detect_step c (buf_for_id (glob s) (ctx_id c)) (buf_for_id (glob s) (redundant_id c)) (ev_timestamp ev) p"
    have "?q \<noteq> p" using detect_step_work [OF False] by (metis less_irrefl)
    then show ?thesis
      by (intro moves_onI [OF sys_step.probe_check [OF R_check False c]]) (use R_check in \<open>simp_all add: points_def\<close>)
  qed
next
  case (R_log evs)
  show ?thesis
  proof (cases evs)
    case Nil
    show ?thesis
      by (rule moves_onI [OF sys_step.recovery_end [OF R_log [unfolded Nil]]])
        (use assms R_log in \<open>simp_all add: points_def\<close>)
  next
    case (Cons e es)
    show ?thesis
      by (rule moves_onI [OF sys_step.log_recovery [OF R_log [unfolded Cons] assms(1)]])
        (use assms R_log in \<open>simp_all add: points_def\<close>)
  qed
qed (use assms in simp_all)

lemma fdi_moves:
  assumes "fdi_thread_ok (fdi_th s)" "logger_th s = L_recv" "recovery_th s = R_recv" "running s"
    and "fdi_th s \<notin> {F_off, F_recv}"
  shows "moves_on env lk s"
proof (cases "fdi_th s")
  case F_start
  show ?thesis
    by (rule moves_onI [OF sys_step.fdi_start [OF F_start]]) (use assms F_start in \<open>simp_all add: points_def\<close>)
next
  case (F_turn now "is")
  show ?thesis
  proof (cases "is")
    case Nil
    show ?thesis
      by (rule moves_onI [OF sys_step.cycle_end [OF F_turn [unfolded Nil]]])
        (use assms F_turn in \<open>simp_all add: points_def\<close>)
  next
    case (Cons j js)
    obtain c where c: "ctx_for_id (glob s) j = Some c"
      using assms(1) F_turn Cons ctx_for_id_None [of "glob s" j] by auto
    show ?thesis
      by (rule moves_onI [OF sys_step.begin_turn [OF F_turn [unfolded Cons] c]])
        (use F_turn in \<open>simp_all add: points_def\<close>)
  qed
next
  case (F_check i b p now "is")
  show ?thesis
  proof (cases "decided p")
    case True
    then obtain d where "p = D_done d" by (auto simp: decided_iff(1))
    from sys_step.judge [OF F_check [unfolded this]] show ?thesis
      by (rule moves_onI) (use F_check in \<open>simp_all add: points_def\<close>)
  next
    case False
    obtain c where c: "ctx_for_id (glob s) i = Some c"
      using assms(1) F_check ctx_for_id_None [of "glob s" i] by auto
    let ?q = "detect_step c (buf_for_id (glob s) i) (buf_for_id (glob s) (sensor_redundant_pair i)) now p"
    have "?q \<noteq> p" using detect_step_work [OF False] by (metis less_irrefl)
    then show ?thesis
      by (intro moves_onI [OF sys_step.check [OF F_check False c]]) (use F_check in \<open>simp_all add: points_def\<close>)
  qed
next
  case (F_isolate i b d now "is")
  from sys_step.isolate [OF this] show ?thesis
    by (rule moves_onI) (use F_isolate in \<open>simp_all add: points_def\<close>)
next
  case (F_event i now "is")
  then obtain ev where "pair_event (glob s) i now = Some ev" using assms(1) pair_event_Some by fastforce
  from sys_step.build_event [OF F_event this] show ?thesis
    by (rule moves_onI) (use F_event in \<open>simp_all add: points_def\<close>)
next
  case (F_log ev now "is")
  show ?thesis
  proof (cases "fdi_to_logger lk")
    case True
    show ?thesis
      by (rule moves_onI [OF sys_step.log_event [OF F_log True assms(2)]]) (use F_log in \<open>simp_all add: points_def\<close>)
  next
    case False
    then have "\<not> fdi_to_logger lk \<or> lossy lk" by simp
    from sys_step.log_skip [OF F_log this] show ?thesis
      by (rule moves_onI) (use F_log in \<open>simp_all add: points_def\<close>)
  qed
next
  case (F_wake ev now "is")
  show ?thesis
  proof (cases "needs_recovery (ev_state ev) \<and> fdi_to_recovery lk")
    case True
    show ?thesis
      by (rule moves_onI [OF sys_step.wake [OF F_wake True assms(3)]]) (use F_wake in \<open>simp_all add: points_def\<close>)
  next
    case False
    then have "\<not> (needs_recovery (ev_state ev) \<and> fdi_to_recovery lk) \<or> lossy lk" by simp
    from sys_step.wake_skip [OF F_wake this] show ?thesis
      by (rule moves_onI) (use F_wake in \<open>simp_all add: points_def\<close>)
  qed
qed (use assms in simp_all)

lemma pipeline_moves:
  assumes "healthy lk s" "0 < work s"
  shows "moves_on env lk s"
proof (cases "main_th s = M_create []")
  case True
  show ?thesis by (rule moves_onI [OF sys_step.all_created [OF True]]) (use True in \<open>simp_all add: points_def\<close>)
next
  case False
  note h = healthyD [OF assms(1)]
  have "main_th s = M_join join_order" using h(10) False by blast
  then have "logger_th s \<noteq> L_recv \<or> recovery_th s \<noteq> R_recv \<or> fdi_th s \<noteq> F_recv"
    using assms(2) by (auto simp: work_def)
  moreover have ok: "fdi_thread_ok (fdi_th s)" "recovery_thread_ok (recovery_th s)" using h(1) by (simp_all add: sys_inv_def)
  ultimately show ?thesis
    using logger_moves [OF h(3,4) _ h(2,9)] recovery_moves [OF _ _ h(9) ok(2)] fdi_moves [OF _ _ _ h(9)] h(5-7) by blast
qed

text \<open>The three threads come to rest, whatever they were doing.\<close>

lemma pipeline_rests:
  "healthy lk s \<Longrightarrow> \<exists>s'. runs env lk s s' \<and> fusion_th s' = fusion_th s \<and> work s' = 0"
proof (induction "work s" arbitrary: s rule: less_induct)
  case less
  show ?case
  proof (cases "work s = 0")
    case False
    then obtain s1 where s1: "sys_step env lk s s1" "fusion_th s1 = fusion_th s" "s1 \<noteq> s"
      using pipeline_moves [OF less.prems] by (auto simp: moves_on_def)
    then obtain s' where "runs env lk s1 s'" "fusion_th s' = fusion_th s1" "work s' = 0"
      using less.hyps [OF step_work [OF s1(1) healthyD(1) [OF less.prems] s1(2,3)] healthy_step [OF s1(1) less.prems]]
      by blast
    then show ?thesis using s1 by (metis converse_rtranclp_into_rtranclp)
  qed blast
qed

section \<open>The sensor thread\<close>

text \<open>What each of its points can go on to, the other threads being where they are.\<close>

lemma screen_grows: "sys_step env lk s s' \<Longrightarrow> length (screen s) \<le> length (screen s')"
  by (cases rule: sys_step.cases) auto

lemma screen_grows_runs: "runs env lk s s' \<Longrightarrow> length (screen s) \<le> length (screen s')"
  by (induction rule: rtranclp_induct) (auto dest: screen_grows intro: order_trans)

lemma rest_notify:
  assumes "healthy lk s" "work s = 0" "fusion_th s = S_send now"
  shows "sys_step env lk s (s\<lparr>fusion_th := S_fuse now, fdi_th := F_turn now pair_order\<rparr>)"
proof -
  have "fdi_th s = F_recv" using assms(2) healthyD(7,8) [OF assms(1)] by (cases "fdi_th s") (auto simp: work_def)
  with assms(3) show ?thesis by (rule sys_step.notify)
qed

definition shows_more :: "mgr_env \<Rightarrow> links \<Rightarrow> system \<Rightarrow> bool" where
  "shows_more env lk s = (\<exists>s'. runs env lk s s' \<and> length (screen s) < length (screen s'))"

lemma shows_more_before:
  assumes "runs env lk s s1" "shows_more env lk s1"
  shows "shows_more env lk s"
proof -
  obtain s' where "runs env lk s1 s'" "length (screen s1) < length (screen s')"
    using assms(2) by (auto simp: shows_more_def)
  then show ?thesis
    using assms(1) screen_grows_runs [OF assms(1)] unfolding shows_more_def
    by (meson le_less_trans rtranclp_trans)
qed

lemma step_more: "sys_step env lk s s1 \<Longrightarrow> shows_more env lk s1 \<Longrightarrow> shows_more env lk s"
  by (rule shows_more_before [OF r_into_rtranclp])

lemma show_step: "fusion_th s = S_show r \<Longrightarrow> shows_more env lk s"
  unfolding shows_more_def by (intro exI conjI, rule r_into_rtranclp, erule sys_step.display) simp

lemma fuse_step:
  assumes "fusion_th s = S_combine now a b"
  shows "\<exists>s' r. sys_step env lk s s' \<and> fusion_th s' = S_show r \<and> dashboard s' = dashboard s @ [r]"
proof -
  obtain fs r where f: "fusion_combine (g_fusion (glob s)) a b (read_long_accel (g_mgr (glob s))
      (g_imu1_ctx (glob s)) (g_imu2_ctx (glob s)) now) now = (fs, r)" by fastforce
  show ?thesis by (intro exI, rule conjI [OF sys_step.fuse [OF assms f]]) simp
qed

lemma combine_more: "fusion_th s = S_combine now a b \<Longrightarrow> shows_more env lk s"
  using fuse_step [of s now a b env lk] show_step step_more by metis

lemma second_more:
  assumes "fusion_th s = S_second now a"
  shows "shows_more env lk s"
  using step_more [OF sys_step.read_second [OF assms] combine_more] by simp

lemma fuse_more:
  assumes "fusion_th s = S_fuse now"
  shows "shows_more env lk s"
  using step_more [OF sys_step.read_first [OF assms] second_more] by simp

lemma send_more:
  assumes "healthy lk s" "fusion_th s = S_send now"
  shows "shows_more env lk s"
proof -
  obtain s1 where s1: "runs env lk s s1" "fusion_th s1 = S_send now" "work s1 = 0"
    using pipeline_rests [OF assms(1)] assms(2) by metis
  let ?s2 = "s1\<lparr>fusion_th := S_fuse now, fdi_th := F_turn now pair_order\<rparr>"
  have "runs env lk s ?s2"
    using s1(1) rest_notify [OF healthy_runs [OF s1(1) assms(1)] s1(3,2)] by (rule rtranclp.rtrancl_into_rtrancl)
  moreover have "shows_more env lk ?s2" by (rule fuse_more) simp
  ultimately show ?thesis by (rule shows_more_before)
qed

text \<open>A poll is never held up: every read returns.\<close>

lemma polls_done:
  assumes "\<forall>ch. pulses_run_out (us_part env) ch"
  shows "fusion_th s = S_poll is \<Longrightarrow> \<exists>s'. runs env lk s s' \<and> fusion_th s' = S_poll []
    \<and> fdi_th s' = fdi_th s \<and> recovery_th s' = recovery_th s \<and> logger_th s' = logger_th s"
proof (induction "is" arbitrary: s)
  case (Cons i "is")
  obtain m w1 where p: "poll_sensor env (g_mgr (glob s)) i (wld s) = Some (m, w1)"
    using poll_sensor_returns [OF assms] by blast
  let ?s1 = "s\<lparr>glob := (glob s)\<lparr>g_mgr := m\<rparr>, wld := w1, fusion_th := S_poll is\<rparr>"
  have "sys_step env lk s ?s1" by (rule sys_step.poll [OF Cons.prems p])
  moreover obtain s' where "runs env lk ?s1 s'" "fusion_th s' = S_poll []" "fdi_th s' = fdi_th ?s1"
      "recovery_th s' = recovery_th ?s1" "logger_th s' = logger_th ?s1"
    using Cons.IH [of ?s1] by auto
  ultimately show ?case by (intro exI [of _ s']) (auto intro: converse_rtranclp_into_rtranclp)
qed blast

lemma polls_stamped:
  assumes "\<forall>ch. pulses_run_out (us_part env) ch" "fusion_th s = S_poll is"
  shows "\<exists>s' now. runs env lk s s' \<and> fusion_th s' = (if to_fdi lk then S_send now else S_fuse now)
    \<and> fdi_th s' = fdi_th s \<and> recovery_th s' = recovery_th s \<and> logger_th s' = logger_th s"
proof -
  obtain s1 where s1: "runs env lk s s1" "fusion_th s1 = S_poll []" "fdi_th s1 = fdi_th s"
      "recovery_th s1 = recovery_th s" "logger_th s1 = logger_th s"
    using polls_done [OF assms] by blast
  obtain now w where t: "main_now_us env (wld s1) = (now, w)" by fastforce
  let ?s2 = "s1\<lparr>wld := w, fusion_th := (if to_fdi lk then S_send now else S_fuse now)\<rparr>"
  have "runs env lk s ?s2" using s1(1) sys_step.stamp [OF s1(2) t, of lk] by (rule rtranclp.rtrancl_into_rtrancl)
  then show ?thesis using s1 by (intro exI [of _ ?s2] exI [of _ now]) simp
qed

lemma poll_more:
  assumes "healthy lk s" "fusion_th s = S_poll is" "\<forall>ch. pulses_run_out (us_part env) ch"
  shows "shows_more env lk s"
proof -
  obtain s1 now where s1: "runs env lk s s1" "fusion_th s1 = (if to_fdi lk then S_send now else S_fuse now)"
    using polls_stamped [OF assms(3,2)] by blast
  then have "shows_more env lk s1"
    using send_more [OF healthy_runs [OF s1(1) assms(1)]] fuse_more [of s1 now] by (auto split: if_splits)
  then show ?thesis using shows_more_before [OF s1(1)] by blast
qed

lemma sleep_more:
  assumes "healthy lk s" "fusion_th s = S_sleep" "\<forall>ch. pulses_run_out (us_part env) ch"
  shows "shows_more env lk s"
proof (rule step_more [OF sys_step.nap [OF assms(2)] poll_more])
  show "healthy lk (s\<lparr>wld := loop_sleep (wld s), fusion_th := again s (S_poll pair_order) S_gone\<rparr>)"
    by (rule healthy_step [OF sys_step.nap [OF assms(2)] assms(1)])
qed (use healthyD(9) [OF assms(1)] assms(3) in simp_all)

lemma start_more:
  assumes "healthy lk s" "fusion_th s = S_start" "\<forall>ch. pulses_run_out (us_part env) ch"
  shows "shows_more env lk s"
proof (rule step_more [OF sys_step.sensor_start [OF assms(2)] poll_more])
  show "healthy lk ((raise_prio lk Sensor_Thread s)\<lparr>fusion_th := again s (S_poll pair_order) S_gone\<rparr>)"
    by (rule healthy_step [OF sys_step.sensor_start [OF assms(2)] assms(1)])
qed (use healthyD(9) [OF assms(1)] assms(3) in simp_all)

text \<open>\<open>main\<close> comes to create the sensor thread.\<close>

lemma sensor_launched:
  "created_ok lk s \<Longrightarrow> \<forall>t. created lk t \<Longrightarrow> fusion_th s = S_off \<Longrightarrow> \<exists>s'. runs env lk s s' \<and> fusion_th s' = S_start"
proof (induction "length (to_create (main_th s))" arbitrary: s)
  case 0
  then have "\<not> waiting s Sensor_Thread" by (simp add: created_ok_def del: waiting.simps)
  then show ?case using "0.prems"(3) by simp
next
  case (Suc n)
  obtain t ts where m: "main_th s = M_create (t # ts)"
    using Suc.hyps(2) by (cases "main_th s"; cases "to_create (main_th s)") auto
  let ?s1 = "launch (created lk t) t (s\<lparr>main_th := M_create ts\<rparr>)"
  have 1: "sys_step env lk s ?s1" by (rule sys_step.create [OF m])
  show ?case
  proof (cases "t = Sensor_Thread")
    case True
    then have "fusion_th ?s1 = S_start" using Suc.prems(2) by simp
    then show ?thesis using 1 by (intro exI [of _ ?s1]) auto
  next
    case False
    obtain s' where "runs env lk ?s1 s'" "fusion_th s' = S_start"
      using Suc.hyps(1) [of ?s1] Suc.hyps(2) Suc.prems created_ok_create [OF Suc.prems(1) m] False m by auto
    then show ?thesis using 1 by (meson converse_rtranclp_into_rtranclp)
  qed
qed

lemma all_launched:
  assumes "main_th s = M_create create_order" "\<forall>t. created lk t"
  shows "runs env lk s (s\<lparr>logger_th := L_start, recovery_th := R_start, fdi_th := F_start,
    main_th := M_create [], fusion_th := S_start\<rparr>)"
proof -
  have step: "runs env lk s (launch True t (u\<lparr>main_th := M_create ts\<rparr>))"
    if "runs env lk s u" "main_th u = M_create (t # ts)" for u t ts
    using sys_step.create [OF that(2), of env lk] that(1) assms(2) by (auto intro: rtranclp.rtrancl_into_rtrancl)
  show ?thesis
    using step [OF step [OF step [OF step [OF rtranclp.rtrancl_refl assms(1) [unfolded create_order_def]]]]]
    by (simp add: launch_def)
qed

lemma reached_healthy:
  "reached env lk s \<Longrightarrow> \<forall>t. created lk t \<Longrightarrow> log_opens lk \<Longrightarrow> fusion_th s \<noteq> S_off \<Longrightarrow> healthy lk s"
  using reached_inv reached_threads by (auto simp: healthy_def)

lemma reached_more:
  assumes "reached env lk s" "\<forall>t. created lk t" "log_opens lk" "\<forall>ch. pulses_run_out (us_part env) ch"
  shows "shows_more env lk s"
proof -
  have on: "shows_more env lk s" if "reached env lk s" "fusion_th s \<noteq> S_off" for s
  proof -
    note h = reached_healthy [OF that(1) assms(2,3) that(2)]
    show ?thesis
    proof (cases "fusion_th s")
      case S_gone
      then show ?thesis using healthyD(1) [OF h] by (simp add: sys_inv_def)
    qed (use h that assms(4) in \<open>auto intro: start_more sleep_more poll_more send_more fuse_more second_more combine_more show_step\<close>)
  qed
  show ?thesis
  proof (cases "fusion_th s = S_off")
    case True
    obtain s' where s': "runs env lk s s'" "fusion_th s' = S_start"
      using sensor_launched [of lk s] reached_threads [OF assms(1)] assms(2) True by blast
    show ?thesis using shows_more_before [OF s'(1) on [OF reached_runs [OF s'(1) assms(1)]]] s'(2) by simp
  qed (rule on [OF assms(1)])
qed

text \<open>A step with an effect that leaves the sensor thread where it is.\<close>

definition inner_step :: "mgr_env \<Rightarrow> links \<Rightarrow> system \<Rightarrow> system \<Rightarrow> bool" where
  "inner_step env lk s s' = (sys_step env lk s s' \<and> fusion_th s' = fusion_th s \<and> s' \<noteq> s)"

lemma inner_steps_work:
  "(inner_step env lk ^^ n) s s' \<Longrightarrow> sys_inv s \<Longrightarrow> n + work s' \<le> work s \<and> sys_inv s'"
proof (induction n arbitrary: s')
  case (Suc n)
  then obtain t where t: "(inner_step env lk ^^ n) s t" "inner_step env lk t s'" by auto
  note ih = Suc.IH [OF t(1) Suc.prems(2)]
  have "work s' < work t" "sys_inv s'"
    using t(2) ih step_work [of env lk t s'] sys_step_inv [of env lk t s'] by (auto simp: inner_step_def)
  then show ?case using ih by simp
qed simp

lemma work_bound:
  assumes "sys_inv s"
  shows "work s \<le> 108"
proof -
  have "main_work (main_th s) \<le> 9" using assms by (cases "main_th s") (auto simp: sys_inv_def)
  moreover have "fdi_work (fdi_th s) \<le> 89"
  proof (cases "fdi_th s")
    case (F_check i b p now "is")
    then show ?thesis using assms detect_work_less [of p] by (simp add: sys_inv_def)
  qed (use assms in \<open>auto simp: sys_inv_def\<close>)
  moreover have "recovery_work (recovery_th s) \<le> 9"
  proof (cases "recovery_th s")
    case (R_check ev p)
    then show ?thesis using detect_work_less [of p] by simp
  qed (use assms in \<open>auto simp: sys_inv_def\<close>)
  moreover have "logger_work (logger_th s) \<le> 1" by (cases "logger_th s") auto
  ultimately show ?thesis by (simp add: work_def)
qed

section \<open>Receivers that never receive\<close>

text \<open>
  Without its file the logger thread returns and never receives, and a thread that was not created
  does not receive either. Without a logger the detector stops at the first event it sends, and the
  sensor thread at its second notification; without a detector the sensor thread stops at its first.
\<close>

fun estimating :: "fusion_thread \<Rightarrow> bool" where
  "estimating (S_fuse now) = True"
| "estimating (S_second now a) = True"
| "estimating (S_combine now a b) = True"
| "estimating _ = False"

definition in_show :: "system \<Rightarrow> bool" where
  "in_show s = (estimating (fusion_th s) \<or> (\<exists>r. fusion_th s = S_show r))"

definition deaf_logger :: "links \<Rightarrow> bool" where
  "deaf_logger lk = (\<not> log_opens lk \<or> \<not> created lk Logger_Thread)"

fun never_receives :: "logger_thread \<Rightarrow> bool" where
  "never_receives L_recv = False"
| "never_receives (L_write ev) = False"
| "never_receives _ = True"

fun not_woken :: "recovery_thread \<Rightarrow> bool" where
  "not_woken (R_handle ev) = False"
| "not_woken (R_check ev p) = False"
| "not_woken (R_log evs) = False"
| "not_woken _ = True"

fun before_first :: "fdi_thread \<Rightarrow> bool" where
  "before_first F_off = True"
| "before_first F_start = True"
| "before_first F_recv = True"
| "before_first F_gone = True"
| "before_first _ = False"

text \<open>Where a detector is that cannot deliver its first event.\<close>

fun in_first_turn :: "fdi_thread \<Rightarrow> bool" where
  "in_first_turn (F_turn now is) = (is = pair_order)"
| "in_first_turn (F_check i b p now is) = (is = tl pair_order)"
| "in_first_turn (F_isolate i b d now is) = (is = tl pair_order)"
| "in_first_turn (F_event i now is) = (is = tl pair_order)"
| "in_first_turn (F_log ev now is) = (is = tl pair_order)"
| "in_first_turn (F_wake ev now is) = False"
| "in_first_turn _ = True"

definition frozen :: "links \<Rightarrow> system \<Rightarrow> bool" where
  "frozen lk s = (never_receives (logger_th s) \<and> (logger_th s = L_start \<longrightarrow> created lk Logger_Thread)
     \<and> not_woken (recovery_th s) \<and> timeline s = [] \<and> in_first_turn (fdi_th s)
     \<and> (if before_first (fdi_th s) then dashboard s = [] \<and> screen s = [] \<and> \<not> in_show s
        else length (dashboard s) + of_bool (estimating (fusion_th s)) = 1)
     \<and> length (screen s) + 2 * of_bool (in_show s) \<le> 2)"

lemma frozen_launch:
  assumes "frozen lk s" "waiting s t"
  shows "frozen lk (launch (created lk t) t (s\<lparr>main_th := m\<rparr>))"
proof (cases "created lk t")
  case True
  then show ?thesis using assms by (cases t) (auto simp: frozen_def in_show_def)
next
  case False
  then show ?thesis using assms by (auto simp: frozen_def in_show_def launch_def)
qed

lemma frozen_step:
  assumes "sys_step env lk s s'" "frozen lk s" "running s" "to_fdi lk" "fdi_to_logger lk" "deaf_logger lk" "\<not> lossy lk"
    and "created_ok lk s"
  shows "frozen lk s'"
  using assms(1)
proof (cases rule: sys_step.cases)
  case (create t ts)
  then have "waiting s t" using assms(8) by (simp add: created_ok_def)
  then show ?thesis using create frozen_launch [OF assms(2)] by simp
qed (use assms(2-7) in \<open>auto simp: frozen_def in_show_def deaf_logger_def pair_order_def\<close>)

lemma start_frozen: "frozen lk (start g w)"
  by (simp add: frozen_def start_def in_show_def)

lemma reached_running: "reached env lk s \<Longrightarrow> running s"
  using reached_inv by (auto simp: sys_inv_def)

lemma reached_frozen:
  "reached env lk s \<Longrightarrow> to_fdi lk \<Longrightarrow> fdi_to_logger lk \<Longrightarrow> deaf_logger lk \<Longrightarrow> \<not> lossy lk \<Longrightarrow> frozen lk s"
proof (induction rule: reached.induct)
  case (moved s s')
  then show ?case using frozen_step [OF moved.hyps(2)] reached_running reached_threads by blast
qed (simp add: start_frozen)

definition silent :: "system \<Rightarrow> bool" where
  "silent s = (fdi_th s = F_off \<and> dashboard s = [] \<and> screen s = [] \<and> \<not> in_show s)"

lemma silent_step:
  assumes "sys_step env lk s s'" "silent s" "to_fdi lk" "\<not> created lk Fdi_Thread" "\<not> lossy lk" "running s"
  shows "silent s'"
  using assms(1)
  by (cases rule: sys_step.cases) (use assms(2-) in \<open>auto simp: silent_def in_show_def\<close>)

lemma reached_silent:
  "reached env lk s \<Longrightarrow> to_fdi lk \<Longrightarrow> \<not> created lk Fdi_Thread \<Longrightarrow> \<not> lossy lk \<Longrightarrow> silent s"
proof (induction rule: reached.induct)
  case (loaded a b c g0 w0 g w os)
  then show ?case by (simp add: silent_def start_def in_show_def)
next
  case (moved s s')
  then show ?case using silent_step reached_running by blast
qed

lemma frozen_bound: "frozen lk s \<Longrightarrow> length (dashboard s) \<le> 1 \<and> length (screen s) \<le> 2"
  by (auto simp: frozen_def split: if_splits)

section \<open>Waiting for a receiver\<close>

text \<open>Where a thread is that can move only when the given receiver receives.\<close>

fun sends_to_logger :: "links \<Rightarrow> fdi_thread \<Rightarrow> bool" where
  "sends_to_logger lk (F_log ev now is) = fdi_to_logger lk"
| "sends_to_logger lk _ = False"

fun sends_to_recovery :: "links \<Rightarrow> fdi_thread \<Rightarrow> bool" where
  "sends_to_recovery lk (F_wake ev now is) = (needs_recovery (ev_state ev) \<and> fdi_to_recovery lk)"
| "sends_to_recovery lk _ = False"

lemma fdi_waits_step:
  assumes "sys_step env lk s s'" "created_ok lk s" "sys_inv s" "\<not> lossy lk"
    and "sends_to_logger lk (fdi_th s) \<and> logger_th s \<noteq> L_recv \<or> sends_to_recovery lk (fdi_th s) \<and> recovery_th s \<noteq> R_recv"
  shows "fdi_th s' = fdi_th s"
  using assms(1)
proof (cases rule: sys_step.cases)
  case (create t ts)
  then have "waiting s t" using assms(2) by (simp add: created_ok_def)
  then show ?thesis using create assms(5) by (cases t) auto
qed (use assms(4,5) in auto)

lemma fdi_waits:
  assumes "runs_while env lk P s s'" "reached env lk s" "\<not> lossy lk"
    and "\<And>u. P u \<Longrightarrow> fdi_th u = fdi_th s \<Longrightarrow>
      sends_to_logger lk (fdi_th u) \<and> logger_th u \<noteq> L_recv \<or> sends_to_recovery lk (fdi_th u) \<and> recovery_th u \<noteq> R_recv"
  shows "fdi_th s' = fdi_th s \<and> reached env lk s'"
  using assms(1)
proof (induction rule: rtranclp_induct)
  case (step t u)
  have "fdi_th u = fdi_th t"
    using fdi_waits_step [of env lk t u] step assms(3) assms(4) [of t] reached_threads [of env lk t]
      reached_inv [of env lk t] by auto
  then show ?case using step reached.moved by auto
qed (use assms(2) in simp)

end
