(* ===== verification/Gpio_Use.thy ===== *)
theory Gpio_Use
  imports Sensor_Manager
begin

text \<open>
  The requests the sensor manager makes of the GPIO server over its life: start-up, polls and
  shutdown keep to the arguments that \<open>rpi_gpio.h\<close> admits, because the wiring of the two rangers
  does.
\<close>

definition pins_ok :: "sensor_manager \<Rightarrow> bool" where
  "pins_ok m = (trig_pin (us1 m) \<in> set gpio_pins \<and> trig_pin (us2 m) \<in> set gpio_pins)"

definition pins_inv :: "sensor_manager \<Rightarrow> world \<Rightarrow> bool" where
  "pins_inv m w = (pins_ok m \<and> requests_ok (us_tr w))"

lemma wiring_ok:
  "US1_TRIG_PIN \<in> set gpio_pins" "US1_ECHO_PIN \<in> set gpio_pins"
  "US2_TRIG_PIN \<in> set gpio_pins" "US2_ECHO_PIN \<in> set gpio_pins"
  "distinct [US1_TRIG_PIN, US1_ECHO_PIN, US2_TRIG_PIN, US2_ECHO_PIN]"
  by (simp_all add: gpio_pin_iff US1_TRIG_PIN_def US1_ECHO_PIN_def US2_TRIG_PIN_def US2_ECHO_PIN_def)

lemma init_us_requests:
  assumes "init_us env u trig echo sid w = (rc, u', w')" "trig \<in> set gpio_pins" "echo \<in> set gpio_pins"
    and "requests_ok (us_tr w)"
  shows "requests_ok (us_tr w') \<and> trig_pin u' = trig"
proof -
  obtain x tr where i: "ultrasonic_init (us_part env) (Some u) trig echo (int (sensor_id_value sid)) (us_tr w)
      = (rc, x, tr)" "w' = w\<lparr>us_tr := tr\<rparr>" "u' = (case x of None \<Rightarrow> u | Some y \<Rightarrow> y)"
    using assms(1) by (auto simp: init_us_def split: prod.splits)
  then show ?thesis using ultrasonic_init_requests [OF i(1) assms(2-4)] by auto
qed

text \<open>The inertial sensors and the buffers are set up without the GPIO server.\<close>

lemma other_set_up:
  "init_imu env m fd a sid w = (rc, m', w') \<Longrightarrow> us_tr w' = us_tr w"
  "calibrate_imu env m w = (m', w') \<Longrightarrow> us_tr w' = us_tr w"
  "init_buf env b sid w = (rc, b', w') \<Longrightarrow> us_tr w' = us_tr w"
  by (auto simp: init_imu_def calibrate_imu_def init_buf_def split: prod.splits)

lemma init_buffers_frame:
  "init_buffers env m w = (rc, m', w') \<Longrightarrow> us_tr w' = us_tr w \<and> us1 m' = us1 m \<and> us2 m' = us2 m"
  by (auto simp: init_buffers_def Let_def split: prod.splits if_splits dest!: other_set_up(3))

lemma sensor_manager_init_requests:
  assumes "sensor_manager_init env (Some m) w = (rc, m', w')" "requests_ok (us_tr w)"
  shows "requests_ok (us_tr w') \<and> (rc = 0 \<longrightarrow> (\<exists>x. m' = Some x \<and> pins_ok x))"
proof -
  obtain r1 u1 w1 where 1: "init_us env (us1 m) US1_TRIG_PIN US1_ECHO_PIN SENSOR_US1 w = (r1, u1, w1)"
    using prod_cases3 by blast
  obtain r2 u2 w2 where 2: "init_us env (us2 m) US2_TRIG_PIN US2_ECHO_PIN SENSOR_US2 w1 = (r2, u2, w2)"
    using prod_cases3 by blast
  have r: "requests_ok (us_tr w1)" "trig_pin u1 = US1_TRIG_PIN"
    using init_us_requests [OF 1 wiring_ok(1,2) assms(2)] by auto
  have s: "requests_ok (us_tr w2)" "trig_pin u2 = US2_TRIG_PIN"
    using init_us_requests [OF 2 wiring_ok(3,4) r(1)] by auto
  show ?thesis
    using assms(1) r s wiring_ok(1,3)
    by (auto simp: sensor_manager_init_def 1 2 Let_def pins_ok_def split: prod.splits if_splits
        dest!: other_set_up init_buffers_frame)
qed

lemma poll_us_requests:
  assumes "poll_us env u b w = Some (b', w')" "trig_pin u \<in> set gpio_pins" "requests_ok (us_tr w)"
  shows "requests_ok (us_tr w')"
proof -
  obtain rc d tr where r: "ultrasonic_read (us_part env) (Some u) True (us_tr w) = Some (rc, d, tr)"
    using assms(1) by (auto simp: poll_us_def split: option.splits)
  then have "us_tr w' = tr"
    using assms(1) by (auto simp: poll_us_def now_us_def Let_def split: bool.splits option.splits)
  then show ?thesis using ultrasonic_read_requests [OF r assms(2,3)] by simp
qed

lemma poll_imu_frame: "poll_imu env m b w = (b', w') \<Longrightarrow> us_tr w' = us_tr w"
  by (auto simp: poll_imu_def now_us_def Let_def split: prod.splits option.splits)

lemma poll_sensor_requests:
  assumes "poll_sensor env m i w = Some (m', w')" "pins_inv m w"
  shows "pins_inv m' w'"
  using assms
  by (cases i)
    (auto simp: poll_sensor_def pins_inv_def pins_ok_def split: prod.splits
      dest: poll_us_requests poll_imu_frame)

lemma shutdown_us_requests: "shutdown_us u w = (u', w') \<Longrightarrow> requests_ok (us_tr w) \<Longrightarrow> requests_ok (us_tr w')"
  by (auto simp: shutdown_us_def ultrasonic_shutdown_def Let_def split: prod.splits if_splits)

lemma sensor_manager_shutdown_requests:
  assumes "sensor_manager_shutdown (Some m) w = (m', w')" "requests_ok (us_tr w)"
  shows "requests_ok (us_tr w')"
proof -
  obtain u1 w1 where 1: "shutdown_us (us1 m) w = (u1, w1)" by fastforce
  obtain u2 w2 where 2: "shutdown_us (us2 m) w1 = (u2, w2)" by fastforce
  have "us_tr w' = us_tr w2"
    using assms(1) by (auto simp: sensor_manager_shutdown_def 1 2 Let_def split: if_splits)
  then show ?thesis using shutdown_us_requests [OF 2 shutdown_us_requests [OF 1 assms(2)]] by simp
qed

end
