(* ===== verification/Thread_Output.thy ===== *)
theory Thread_Output
  imports Thread_Invariant Gpio_Use
begin

text \<open>
  What the sensor thread shows: the lines of the dashboard are those of the estimates, the numbers
  in them are floats, and each estimate was computed from readings that were taken of the contexts
  within its own cycle.
\<close>

section \<open>What is printed\<close>

text \<open>The output of a sequence of cycles: each estimate's line and that of the states at that moment.\<close>

definition lines_of :: "(fusion_result \<times> system) list \<Rightarrow> string list" where
  "lines_of ps = concat (map (\<lambda>(r, u). [parking_line r, status_line (glob u)]) ps)"

fun pending :: "fusion_thread \<Rightarrow> fusion_result list" where
  "pending (S_show r) = [r]"
| "pending _ = []"

definition screen_ok :: "mgr_env \<Rightarrow> links \<Rightarrow> system \<Rightarrow> bool" where
  "screen_ok env lk s = (\<exists>ps. screen s = lines_of ps \<and> dashboard s = map fst ps @ pending (fusion_th s)
     \<and> (\<forall>(r, u)\<in>set ps. reached env lk u \<and> fusion_th u = S_show r))"

lemma pending_again [simp]: "pending (again s (S_poll is) S_gone) = []"
  by (simp add: again_def)

lemma screen_ok_step:
  assumes "sys_step env lk s s'" "screen_ok env lk s" "reached env lk s"
  shows "screen_ok env lk s'"
proof -
  obtain ps where ps: "screen s = lines_of ps" "dashboard s = map fst ps @ pending (fusion_th s)"
      "\<forall>(r, u)\<in>set ps. reached env lk u \<and> fusion_th u = S_show r"
    using assms(2) by (auto simp: screen_ok_def)
  show ?thesis
    using assms(1)
  proof (cases rule: sys_step.cases)
    case (create t ts)
    have "fusion_th s = S_off" if "t = Sensor_Thread"
      using reached_inv [OF assms(3)] create(2) that waiting.simps(1) [of s]
      by (simp add: sys_inv_def creating_def del: waiting.simps)
    then show ?thesis using ps create(1) by (cases t) (auto simp: screen_ok_def)
  next
    case (display r)
    then show ?thesis
      using ps assms(3) unfolding screen_ok_def
      by (intro exI [of _ "ps @ [(r, s)]"]) (simp add: lines_of_def)
  qed (use ps in \<open>auto simp: screen_ok_def\<close>)
qed

lemma reached_screen: "reached env lk s \<Longrightarrow> screen_ok env lk s"
proof (induction rule: reached.induct)
  case (loaded a b c g0 w0 g w os)
  then show ?case by (simp add: screen_ok_def start_def lines_of_def)
next
  case (moved s s')
  then show ?case using screen_ok_step by blast
qed

section \<open>Numbers\<close>

text \<open>The floats of an estimate and of the fusion state are binary32 numbers, infinities or NaN.\<close>

definition result_typed :: "fusion_result \<Rightarrow> bool" where
  "result_typed r = list_all f32_ok [distance_cm r, uncertainty_cm r, safe_distance_cm r]"

definition state_typed :: "fusion_state \<Rightarrow> bool" where
  "state_typed fs = list_all f32_ok [last_good_cm fs, velocity_mps fs]"

lemma safe_edge_typed: "f32_ok (distance_cm r) \<Longrightarrow> f32_ok (uncertainty_cm r) \<Longrightarrow> result_typed (safe_edge r)"
  by (simp add: result_typed_def safe_edge_def Let_def del: f32_ok.simps)

lemma safe_edge_distance: "distance_cm (safe_edge r) = distance_cm r"
  by (simp add: safe_edge_def Let_def)

lemma note_good_typed: "f32_ok d \<Longrightarrow> state_typed (note_good d now fs)"
  by (simp add: state_typed_def note_good_def del: f32_ok.simps)

lemma contributor_typed: "contrib_ok c \<Longrightarrow> present c \<Longrightarrow> f32_ok (cm c)"
  by (auto simp: contrib_ok_def range_contrib_def simp del: f32_ok.simps)

lemma holdover_typed:
  assumes "state_typed fs"
  shows "state_typed (fst (fuse_holdover fs acc now)) \<and> f32_ok (distance_cm (snd (fuse_holdover fs acc now)))
    \<and> f32_ok (uncertainty_cm (snd (fuse_holdover fs acc now))) \<and> f32_ok (safe_distance_cm (snd (fuse_holdover fs acc now)))"
  using assms
  by (simp add: fuse_holdover_def state_typed_def zero_result_def holdover_uncertainty_def Let_def
      del: f32_ok.simps split: option.split)

lemma fusion_typed:
  assumes "contrib_ok a" "contrib_ok b" "state_typed fs" "fusion_combine fs a b acc now = (fs', out)"
  shows "state_typed fs' \<and> result_typed out"
  using assms(4)
proof (cases rule: fusion_combine_cases)
  case pair
  have "f32_ok (distance_cm (fuse_pair a b))" "f32_ok (uncertainty_cm (fuse_pair a b))"
    using contributor_typed [OF assms(1) pair(1)] contributor_typed [OF assms(2) pair(2)]
    by (auto simp: fuse_pair_def weighted_mean_def pair_uncertainty_def Let_def simp del: f32_ok.simps)
  then show ?thesis using pair by (simp add: safe_edge_typed note_good_typed safe_edge_distance)
next
  case (single c)
  have "f32_ok (distance_cm (fuse_single c))" "f32_ok (uncertainty_cm (fuse_single c))"
    using single(1,2) contributor_typed [of c] assms(1,2) by (auto simp: fuse_single_def simp del: f32_ok.simps)
  then show ?thesis using single by (simp add: safe_edge_typed note_good_typed safe_edge_distance)
next
  case hold
  then show ?thesis using holdover_typed [OF assms(3)] by (simp add: safe_edge_typed)
next
  case lost
  then show ?thesis using holdover_typed [OF assms(3)] assms(3) by (simp add: result_typed_def)
qed

text \<open>A buffer of at most ten samples with \<open>n\<close> values each, all of them floats.\<close>

definition entries_sized :: "nat \<Rightarrow> sensor_buffer \<Rightarrow> bool" where
  "entries_sized n b = (list_all sample_ok (samples b) \<and> length (history b) \<le> 10
     \<and> (\<forall>e\<in>set (map time_values (history b)). length (snd e) = n))"

lemma range_sized: "holds_only range_entry b \<Longrightarrow> entries_sized 1 b"
  by (auto simp: holds_only_def range_entry_def buffer_inv_def entries_sized_def)

lemma inertial_sized: "holds_only inertial_entry b \<Longrightarrow> entries_sized 6 b"
  by (auto simp: holds_only_def inertial_entry_def buffer_inv_def entries_sized_def)

definition numbers_ok :: "system \<Rightarrow> bool" where
  "numbers_ok s = (state_typed (g_fusion (glob s)) \<and> list_all result_typed (dashboard s))"

lemma numbers_step:
  assumes "sys_step env lk s s'" "numbers_ok s" "sys_inv s"
  shows "numbers_ok s'"
  using assms(1)
proof (cases rule: sys_step.cases)
  case (fuse now a b fs r)
  then show ?thesis
    using fusion_typed [OF _ _ _ fuse(3)] assms(2,3) by (simp add: numbers_ok_def sys_inv_def)
qed (use assms(2) in \<open>auto simp: numbers_ok_def dest: recovery_switch_frame\<close>)

lemma reached_numbers: "reached env lk s \<Longrightarrow> numbers_ok s"
proof (induction rule: reached.induct)
  case (loaded a b c g0 w0 g w os)
  then have "g_fusion g = zero_state" using main_init_inv by blast
  then show ?case by (simp add: numbers_ok_def start_def state_typed_def zero_state_def del: f32_ok.simps)
next
  case (moved s s')
  then show ?case using numbers_step reached_inv by blast
qed

section \<open>Readings\<close>

text \<open>
  The moments at which the two contributors of an estimate were read. Between them and the estimate
  the detector and the recovery thread may move the sensors on, the buffers stay.
\<close>

definition first_read :: "mgr_env \<Rightarrow> links \<Rightarrow> system \<Rightarrow> u64 \<Rightarrow> contrib \<Rightarrow> system \<Rightarrow> bool" where
  "first_read env lk s1 now a s = (reached env lk s1 \<and> fusion_th s1 = S_fuse now \<and> runs env lk s1 s
     \<and> g_mgr (glob s1) = g_mgr (glob s) \<and> a = read_contributor (g_mgr (glob s)) (g_us1_ctx (glob s1)) now)"

definition second_read :: "mgr_env \<Rightarrow> links \<Rightarrow> system \<Rightarrow> u64 \<Rightarrow> contrib \<Rightarrow> contrib \<Rightarrow> system \<Rightarrow> bool" where
  "second_read env lk s2 now a b s = (fusion_th s2 = S_second now a \<and> runs env lk s2 s
     \<and> g_mgr (glob s2) = g_mgr (glob s) \<and> b = read_contributor (g_mgr (glob s)) (g_us2_ctx (glob s2)) now)"

definition readings :: "mgr_env \<Rightarrow> links \<Rightarrow> system \<Rightarrow> bool" where
  "readings env lk s = (case fusion_th s of
       S_second now a \<Rightarrow> \<exists>s1. first_read env lk s1 now a s
     | S_combine now a b \<Rightarrow> \<exists>s1 s2. first_read env lk s1 now a s2 \<and> second_read env lk s2 now a b s
     | _ \<Rightarrow> True)"

lemma first_read_later:
  "first_read env lk s1 now a s \<Longrightarrow> sys_step env lk s s' \<Longrightarrow> g_mgr (glob s') = g_mgr (glob s)
   \<Longrightarrow> first_read env lk s1 now a s'"
  by (auto simp: first_read_def intro: rtranclp.rtrancl_into_rtrancl)

lemma second_read_later:
  "second_read env lk s2 now a b s \<Longrightarrow> sys_step env lk s s' \<Longrightarrow> g_mgr (glob s') = g_mgr (glob s)
   \<Longrightarrow> second_read env lk s2 now a b s'"
  by (auto simp: second_read_def intro: rtranclp.rtrancl_into_rtrancl)

text \<open>Only a poll changes the manager or talks to the rangers.\<close>

lemma step_mgr_cases:
  assumes "sys_step env lk s s'" "sys_inv s"
  shows "g_mgr (glob s') = g_mgr (glob s) \<and> us_tr (wld s') = us_tr (wld s)
    \<or> (\<exists>i is. fusion_th s = S_poll (i # is)
         \<and> poll_sensor env (g_mgr (glob s)) i (wld s) = Some (g_mgr (glob s'), wld s'))"
  using assms(1)
  by (cases rule: sys_step.cases) (use assms(2) in \<open>auto simp: sys_inv_def main_now_us_def loop_sleep_def Let_def dest: recovery_switch_frame\<close>)

lemma step_mgr:
  assumes "sys_step env lk s s'" "sys_inv s" "\<And>is. fusion_th s \<noteq> S_poll is"
  shows "g_mgr (glob s') = g_mgr (glob s)"
  using step_mgr_cases [OF assms(1,2)] assms(3) by auto

lemma readings_step:
  assumes "reached env lk s" "sys_step env lk s s'" "readings env lk s"
  shows "readings env lk s'"
proof -
  note mgr = step_mgr [OF assms(2) reached_inv [OF assms(1)]]
  consider "fusion_th s' = fusion_th s" | "fusion_th s' \<noteq> fusion_th s" by blast
  then show ?thesis
  proof cases
    case 1
    show ?thesis
    proof (cases "fusion_th s")
      case (S_second now a)
      then show ?thesis using 1 assms(3) first_read_later [OF _ assms(2) mgr] by (auto simp: readings_def)
    next
      case (S_combine now a b)
      then show ?thesis using 1 assms(3) second_read_later [OF _ assms(2) mgr] by (auto simp: readings_def; blast)
    qed (use 1 in \<open>simp_all add: readings_def\<close>)
  next
    case 2
    from assms(2) show ?thesis
    proof (cases rule: sys_step.cases)
      case (read_first now)
      then have "first_read env lk s now (read_contributor (g_mgr (glob s)) (g_us1_ctx (glob s)) now) s'"
        using assms(1,2) by (auto simp: first_read_def)
      then show ?thesis using read_first(1) by (auto simp: readings_def)
    next
      case (read_second now a)
      then have "second_read env lk s now a (read_contributor (g_mgr (glob s)) (g_us2_ctx (glob s)) now) s'"
        using assms(2) by (auto simp: second_read_def)
      then show ?thesis using read_second assms(3) by (auto simp: readings_def)
    qed (use 2 in \<open>auto simp: readings_def again_def\<close>)
  qed
qed

lemma reached_readings: "reached env lk s \<Longrightarrow> readings env lk s"
proof (induction rule: reached.induct)
  case (loaded a b c g0 w0 g w os)
  then show ?case by (simp add: readings_def start_def)
next
  case (moved s s')
  then show ?case using readings_step by blast
qed

section \<open>Requests to the GPIO server\<close>

lemma pins_step:
  assumes "sys_step env lk s s'" "sys_inv s" "pins_inv (g_mgr (glob s)) (wld s)"
  shows "pins_inv (g_mgr (glob s')) (wld s')"
  using step_mgr_cases [OF assms(1,2)] assms(3) poll_sensor_requests by (auto simp: pins_inv_def)

lemma pins_runs:
  "runs env lk s s' \<Longrightarrow> sys_inv s \<Longrightarrow> pins_inv (g_mgr (glob s)) (wld s) \<Longrightarrow> pins_inv (g_mgr (glob s')) (wld s')"
  by (induction rule: rtranclp_induct) (blast intro: pins_step runs_inv)+

lemma create_queues_mgr: "create_queues a b c g = (rc, g') \<Longrightarrow> g_mgr g' = g_mgr g"
  by (auto simp: create_queues_def Let_def split: prod.splits if_splits)

lemma main_init_requests:
  assumes "main_init env a b c g w = (rc, g', w')" "requests_ok (us_tr w)"
  shows "requests_ok (us_tr w') \<and> (rc = 0 \<longrightarrow> pins_inv (g_mgr g') w')"
proof -
  obtain rc1 m w1 where i: "sensor_manager_init env (Some (g_mgr g)) w = (rc1, m, w1)"
    using prod_cases3 by blast
  note r = sensor_manager_init_requests [OF i assms(2)]
  have "w' = w1" "rc = 0 \<longrightarrow> rc1 = 0 \<and> (\<forall>x. m = Some x \<longrightarrow> g_mgr g' = x)"
    using assms(1) by (auto simp: main_init_def i init_contexts_def Let_def split: prod.splits if_splits dest!: create_queues_mgr)
  then show ?thesis using r by (auto simp: pins_inv_def)
qed

end
