(* ===== verification/Thread_Life.thy ===== *)
theory Thread_Life
  imports Thread_Invariant
begin

text \<open>
  The life of a sensor within the program of \<open>src/main.c\<close>: the program, with its checks spread over
  many steps, simulates the sequences of whole evaluations and recovery messages of Fdi_Life. A
  sensor between its debounce and its isolation counts as isolated already. Without interference, the
  steps of an evaluation and of a message are those of the functions of the code.
\<close>

section \<open>The simulation\<close>

text \<open>What the detector will have made of a sensor when its current isolation is done.\<close>

fun closing :: "fdi_thread \<Rightarrow> sensor_id \<Rightarrow> fdi_context \<Rightarrow> fdi_context" where
  "closing (F_isolate j b d now is) i c = (if j = i then conclude_sensor c b d else c)"
| "closing _ i c = c"

definition life_in :: "system \<Rightarrow> sensor_id \<Rightarrow> sensor_life option" where
  "life_in s i = map_option (\<lambda>(c, v). (closing (fdi_th s) i c, v)) (life_of (glob s) i)"

lemma life_inI: "life_of (glob s) i = Some (c, v) \<Longrightarrow> life_in s i = Some (closing (fdi_th s) i c, v)"
  by (simp add: life_in_def)

lemma closing_frame [simp]: "ctx_id (closing f i c) = ctx_id c"
  by (cases f) simp_all

text \<open>On a sensor that is not FAULTED the end of an isolation notes the verdict, and no more.\<close>

lemma conclude_note:
  "state c \<noteq> STATE_FAULTED \<Longrightarrow> b \<noteq> STATE_FAULTED \<Longrightarrow> conclude_sensor c b d = c\<lparr>last_fault := d\<rparr>"
  by (simp add: conclude_sensor_def isolate_if_faulted_def split: sensor_state.split)

lemma closing_cases:
  assumes "sys_inv s"
  obtains (none) "\<And>c. closing (fdi_th s) i c = c"
    | (noted) d where "\<And>c. state c \<noteq> STATE_FAULTED \<Longrightarrow> closing (fdi_th s) i c = c\<lparr>last_fault := d\<rparr>"
proof (cases "fdi_th s")
  case (F_isolate j b d now "is")
  then have "b \<noteq> STATE_FAULTED" using assms by (simp add: sys_inv_def fdi_relies_def)
  then show ?thesis using F_isolate conclude_note none noted [of d] by (cases "j = i") simp_all
qed (use none in simp_all)

lemma closing_not_faulted:
  assumes "sys_inv s" "life_of (glob s) i = Some (c, v)"
  shows "state (closing (fdi_th s) i c) \<noteq> STATE_FAULTED"
proof (cases "state c = STATE_FAULTED")
  case True
  then have "isolating (fdi_th s) i"
    using assms life_ofE(1) [OF assms(2)] by (auto simp: sys_inv_def faults_isolated_def)
  then show ?thesis using conclude_not_faulted by (cases "fdi_th s") auto
next
  case False
  then show ?thesis using conclude_sensor_state [OF False] by (cases "fdi_th s") auto
qed

text \<open>The recovery thread's operations do not read the last fault.\<close>

lemma recover_switch_note:
  "recover_switch up c v now = Some (c', v', evs)
   \<Longrightarrow> \<exists>evs'. recover_switch up (c\<lparr>last_fault := d\<rparr>) v now = Some (c'\<lparr>last_fault := d\<rparr>, v', evs')"
  by (cases "state c")
    (auto simp: recover_switch_def start_probe_ctx_def abandon_probe_def isolate_ctx_def Let_def split: if_splits)

lemma probe_ctx_note: "probe_ctx (c\<lparr>last_fault := d\<rparr>) d' = probe_ctx c d'"
  by (simp add: probe_ctx_def)

lemma finish_probe_note: "finish_probe (c\<lparr>last_fault := d\<rparr>) v d' = finish_probe c v d'"
  by (simp add: finish_probe_def probe_ctx_note)

lemma awaits_note [simp]: "awaits (c\<lparr>last_fault := d\<rparr>) v now = awaits c v now"
  by (simp add: awaits_def probing_def)

lemma life_switch:
  assumes "sys_inv s" "life_of (glob s) i = Some (c, v)" "recover_switch up c v now = Some (c', v', evs)"
  shows "\<exists>es. (closing (fdi_th s) i c', v') = life_run es (closing (fdi_th s) i c, v)"
proof (cases "state c = STATE_FAULTED")
  case True
  then have "c' = c" "v' = v" using assms(3) by (auto simp: recover_switch_def)
  then show ?thesis by (intro exI [of _ "[]"]) simp
next
  case False
  then have f': "state c' \<noteq> STATE_FAULTED" using recover_switch_not_faulted [OF assms(3)] by blast
  from assms(1) show ?thesis
  proof (cases rule: closing_cases [of s i])
    case none
    then show ?thesis using recover_switch_on [OF assms(3), of FAULT_NONE]
      by (intro exI [of _ "[Recovered up FAULT_NONE now]"]) simp
  next
    case (noted d)
    obtain evs' where "recover_switch up (c\<lparr>last_fault := d\<rparr>) v now = Some (c'\<lparr>last_fault := d\<rparr>, v', evs')"
      using recover_switch_note [OF assms(3), of d] by blast
    from recover_switch_on [OF this, of FAULT_NONE] show ?thesis
      using noted [OF False] noted [OF f'] by (intro exI [of _ "[Recovered up FAULT_NONE now]"]) simp
  qed
qed

lemma life_finish:
  assumes "sys_inv s" "life_of (glob s) i = Some (c, v)" "awaits c v now" "finish_probe c v d = (c', v')"
  shows "\<exists>es. (closing (fdi_th s) i c', v') = life_run es (closing (fdi_th s) i c, v)"
proof -
  have n: "state c \<noteq> STATE_FAULTED" using awaits_recovery [OF assms(3)] by (auto simp: needs_recovery_def)
  have f': "state c' \<noteq> STATE_FAULTED" using finish_probe_not_faulted [OF assms(4)] assms(3) by (simp add: awaits_def)
  from assms(1) show ?thesis
  proof (cases rule: closing_cases [of s i])
    case none
    then show ?thesis using recover_finish_on [OF assms(3,4), of False]
      by (intro exI [of _ "[Recovered False d now]"]) simp
  next
    case (noted k)
    have "recover_on False (c\<lparr>last_fault := k\<rparr>) v d now = (c', v', [])"
      by (rule recover_finish_on) (use assms(3,4) finish_probe_note in simp_all)
    then show ?thesis
      using noted [OF n] noted [OF f'] by (intro exI [of _ "[Recovered False d now, Overtaken k now]"]) simp
  qed
qed

text \<open>A step of the program is at most one event of the sensor's life, or one that notes a verdict again.\<close>

lemma step_life:
  assumes "sys_step env lk s s'" "sys_inv s" "real_sensor i" "life_in s i = Some x"
  shows "\<exists>es. life_in s' i = Some (life_run es x)"
proof -
  have none: ?thesis if "life_in s' i = life_in s i" using that assms(4) by (intro exI [of _ "[]"]) simp
  obtain c0 v0 where x0: "life_of (glob s) i = Some (c0, v0)" using sensor_life [OF assms(2,3)] by metis
  have x: "x = (closing (fdi_th s) i c0, v0)" using life_inI [OF x0] assms(4) by simp
  have len: "length (g_sup (glob s)) = 4" using assms(2) by (simp add: sys_inv_def globals_inv_def)
  from assms(1) show ?thesis
  proof (cases rule: sys_step.cases)
    case (judge j b d now "is")
    obtain c v where y: "life_of (glob s) j = Some (c, v)" "real_sensor j" "b \<noteq> STATE_FAULTED" "needs_recovery b \<or> state c = b"
        "judge_pair (glob s) j b d = put_ctx (glob s) j (judge_sensor c b d)" "state c \<noteq> STATE_FAULTED"
      using judge_effect [OF assms(2) judge(2)] by metis
    show ?thesis
    proof (cases "j = i")
      case False
      then show ?thesis using judge y by (intro none) (simp add: life_in_def)
    next
      case True
      have e: "life_in s' i = Some (conclude_sensor (judge_sensor c b d) b d, v)" "x = (c, v)"
        using judge y x x0 True life_ofE(2) [OF y(1)] by (simp_all add: life_in_def)
      show ?thesis
      proof (cases "needs_recovery b")
        case True
        then show ?thesis using e by (intro exI [of _ "[Overtaken d now]"]) (simp add: judge_owned conclude_owned)
      next
        case False
        then show ?thesis using e y(4) by (intro exI [of _ "[Evaluated d now]"]) (auto simp: evaluate_on_def)
      qed
    qed
  next
    case (isolate j b d now "is")
    obtain c v where y: "life_of (glob s) j = Some (c, v)" "real_sensor j"
        "conclude_pair (glob s) j b d = put_ctx (glob s) j (conclude_sensor c b d)"
      using isolate_effect [OF assms(2) isolate(2)] by metis
    show ?thesis
      using isolate y life_ofE(2) [OF y(1)] by (intro none) (auto simp: life_in_def)
  next
    case (recover ev g evs)
    obtain c v c' v' where y: "life_of (glob s) (ev_id ev) = Some (c, v)" "real_sensor (ev_id ev)"
        "recover_switch (recovery_to_logger lk) c v (ev_timestamp ev) = Some (c', v', evs)"
        "g = put_life (glob s) (ev_id ev) c' v'"
      using recover_effect [OF assms(2) recover(2,3)] by metis
    show ?thesis
    proof (cases "ev_id ev = i")
      case False
      then show ?thesis using recover y len assms(3) by (intro none) (simp add: life_in_def)
    next
      case True
      then have "life_in s' i = Some (closing (fdi_th s) i c', v')" "x = (closing (fdi_th s) i c, v)"
        using recover y len x x0 by (simp_all add: life_in_def)
      then show ?thesis using life_switch [OF assms(2) _ y(3)] y(1) True by auto
    qed
  next
    case (finish_probe ev d)
    obtain c v c' v' where y: "life_of (glob s) (ev_id ev) = Some (c, v)" "real_sensor (ev_id ev)"
        "awaits c v (ev_timestamp ev)" "finish_probe c v d = (c', v')"
        "recovery_finish (glob s) ev d = put_life (glob s) (ev_id ev) c' v'"
      using finish_effect [OF assms(2) finish_probe(2)] by metis
    show ?thesis
    proof (cases "ev_id ev = i")
      case False
      then show ?thesis using finish_probe y len assms(3) by (intro none) (simp add: life_in_def)
    next
      case True
      then have "life_in s' i = Some (closing (fdi_th s) i c', v')" "x = (closing (fdi_th s) i c, v)"
        using finish_probe y len x x0 by (simp_all add: life_in_def)
      then show ?thesis using life_finish [OF assms(2) _ y(3,4)] y(1) True by auto
    qed
  next
    case (create t ts)
    have "fdi_th s = F_off" if "t = Fdi_Thread"
      using that create(2) assms(2) waiting.simps(2) [of s] by (simp add: sys_inv_def creating_def del: waiting.simps)
    then show ?thesis using create by (intro none) (auto simp: life_in_def)
  qed (use none in \<open>auto simp: life_in_def again_def\<close>)
qed

lemma runs_life:
  "runs env lk s s' \<Longrightarrow> sys_inv s \<Longrightarrow> real_sensor i \<Longrightarrow> life_in s i = Some x
   \<Longrightarrow> \<exists>es. life_in s' i = Some (life_run es x)"
proof (induction rule: rtranclp_induct)
  case base
  then show ?case by (intro exI [of _ "[]"]) simp
next
  case (step t u)
  then obtain es where "life_in t i = Some (life_run es x)" by blast
  then obtain ds where "life_in u i = Some (life_run ds (life_run es x))"
    using step_life [OF step.hyps(2) runs_inv [OF step.hyps(1) step.prems(1)] step.prems(2)] by blast
  then show ?case by (intro exI [of _ "es @ ds"]) simp
qed

section \<open>Undisturbed\<close>

text \<open>
  If no other thread moves, a turn of the detector does what \<open>evaluate_sensor\<close> does to the sensor, and
  a message what the whole handler does.
\<close>

lemma put_ctx_twice [simp]: "put_ctx (put_ctx g i c) i d = put_ctx g i d"
  by (cases i) simp_all

lemma undisturbed_checks:
  assumes "\<And>p. \<not> decided p \<Longrightarrow> sys_step env lk (at p) (at (detect_step c b r now p))"
  shows "runs env lk (at p) (at ((detect_step c b r now ^^ n) p))"
proof (induction n)
  case (Suc n)
  let ?q = "(detect_step c b r now ^^ n) p"
  have "at (detect_step c b r now ?q) = at ?q \<or> sys_step env lk (at ?q) (at (detect_step c b r now ?q))"
    using assms by (cases "decided ?q") (auto simp: decided_iff(1))
  then show ?case using Suc by (auto intro: rtranclp.rtrancl_into_rtrancl)
qed simp

lemma checks_run:
  "ctx_for_id (glob s) i = Some c \<Longrightarrow> runs env lk (s\<lparr>fdi_th := F_check i b p now is\<rparr>) (s\<lparr>fdi_th := F_check i b
     ((detect_step c (buf_for_id (glob s) i) (buf_for_id (glob s) (sensor_redundant_pair i)) now ^^ n) p) now is\<rparr>)"
  by (rule undisturbed_checks [of _ _ "\<lambda>p. s\<lparr>fdi_th := F_check i b p now is\<rparr>"])
    (use sys_step.check [of "s\<lparr>fdi_th := F_check i b _ now is\<rparr>"] in simp)

lemma turn_runs:
  assumes "fdi_th s = F_turn now (i # is)" "ctx_for_id (glob s) i = Some c"
  shows "runs env lk s (s\<lparr>glob := evaluate_pair (glob s) i now, fdi_th := F_event i now is\<rparr>)"
proof -
  let ?b = "buf_for_id (glob s) i" and ?r = "buf_for_id (glob s) (sensor_redundant_pair i)"
  let ?d = "fdi_detect (Some c) ?b ?r now"
  let ?s1 = "s\<lparr>fdi_th := F_check i (state c) (detect_start ?b) now is\<rparr>"
  let ?s2 = "s\<lparr>fdi_th := F_check i (state c) (D_done ?d) now is\<rparr>"
  let ?s3 = "s\<lparr>glob := judge_pair (glob s) i (state c) ?d, fdi_th := F_isolate i (state c) ?d now is\<rparr>"
  have r: "real_sensor i" using assms(2) ctx_for_id_None [of "glob s" i] by auto
  have "sys_step env lk s ?s1" by (rule sys_step.begin_turn [OF assms])
  moreover have "runs env lk ?s1 ?s2" using checks_run [OF assms(2), of env lk "state c" "detect_start ?b" now "is" 6] detect_steps by simp
  moreover have "sys_step env lk ?s2 ?s3" using sys_step.judge [of ?s2 i "state c" ?d now "is" env lk] by simp
  moreover have "sys_step env lk ?s3 (s\<lparr>glob := evaluate_pair (glob s) i now, fdi_th := F_event i now is\<rparr>)"
    using sys_step.isolate [of ?s3 i "state c" ?d now "is" env lk] assms(2) r
    by (simp add: evaluate_pair_def judge_pair_def conclude_pair_def evaluate_sensor_def evaluate_on_def)
  ultimately show ?thesis by (meson converse_rtranclp_into_rtranclp rtranclp.rtrancl_into_rtrancl)
qed

lemma probe_checks_run:
  "ctx_for_id (glob s) (ev_id ev) = Some c \<Longrightarrow> runs env lk (s\<lparr>recovery_th := R_check ev p\<rparr>) (s\<lparr>recovery_th := R_check ev
     ((detect_step c (buf_for_id (glob s) (ctx_id c)) (buf_for_id (glob s) (redundant_id c)) (ev_timestamp ev) ^^ n) p)\<rparr>)"
  by (rule undisturbed_checks [of _ _ "\<lambda>p. s\<lparr>recovery_th := R_check ev p\<rparr>"])
    (use sys_step.probe_check [of "s\<lparr>recovery_th := R_check ev _\<rparr>"] in simp)

lemma message_runs:
  assumes "recovery_th s = R_handle ev" "ctx_for_id (glob s) (ev_id ev) = Some c"
    and "recovery_handle (recovery_to_logger lk) (glob s) ev = (g, evs)"
  shows "runs env lk s (s\<lparr>glob := g, recovery_th := R_log evs\<rparr>)"
proof -
  let ?v = "g_sup (glob s) ! sensor_idx (ev_id ev)" and ?up = "recovery_to_logger lk" and ?t = "ev_timestamp ev"
  let ?b = "buf_for_id (glob s) (ctx_id c)" and ?r = "buf_for_id (glob s) (redundant_id c)"
  let ?d = "fdi_detect (Some c) ?b ?r ?t"
  show ?thesis
  proof (cases "recover_switch ?up c ?v ?t")
    case None
    obtain c' v' where f: "finish_probe c ?v ?d = (c', v')" by fastforce
    have w: "recovery_switch ?up (glob s) ev = None" using None assms(2) by (simp add: recovery_switch_def)
    have g: "g = put_life (glob s) (ev_id ev) c' v'" "evs = []"
      using assms(2,3) None f by (simp_all add: recovery_handle_def recover_sensor_def recover_on_def)
    let ?s1 = "s\<lparr>recovery_th := R_check ev (detect_start ?b)\<rparr>" and ?s2 = "s\<lparr>recovery_th := R_check ev (D_done ?d)\<rparr>"
    have "sys_step env lk s ?s1" by (rule sys_step.begin_probe [OF assms(1) w assms(2)])
    moreover have "runs env lk ?s1 ?s2"
      using probe_checks_run [OF assms(2), of env lk "detect_start ?b" 6] detect_steps by simp
    moreover have "sys_step env lk ?s2 (s\<lparr>glob := g, recovery_th := R_log evs\<rparr>)"
      using sys_step.finish_probe [of ?s2 ev ?d env lk] assms(2) g f by (simp add: recovery_finish_def)
    ultimately show ?thesis by (meson converse_rtranclp_into_rtranclp rtranclp.rtrancl_into_rtrancl)
  next
    case (Some r)
    then have "recovery_switch ?up (glob s) ev = Some (g, evs)"
      using assms(2,3) by (auto simp: recovery_switch_def recovery_handle_def recover_sensor_def recover_on_def split: prod.splits)
    from sys_step.recover [OF assms(1) this, of env] show ?thesis by blast
  qed
qed

end
