(* ===== verification/Idle_Run.thy ===== *)
theory Idle_Run
  imports Thread_Progress Thread_Output Thread_Life
begin

text \<open>
  A start-up in which no ranger ever answers and no inertial sensor can be read, and schedules of
  the program from there: the states to which the properties of the program are applied.
\<close>

section \<open>An idle environment\<close>

text \<open>The statics of \<open>main.c\<close>, and an environment in which every call of the start-up succeeds.\<close>

definition zero_queue :: qnx_queue where
  "zero_queue = \<lparr>q_chid = 0, q_coid = 0\<rparr>"

definition zero_globals :: globals where
  "zero_globals = \<lparr>g_mgr = zero_manager, g_us1_ctx = zero_context, g_us2_ctx = zero_context,
     g_imu1_ctx = zero_context, g_imu2_ctx = zero_context, g_fusion = zero_state,
     g_sup = replicate 4 zero_sup, g_q_fusion_to_fdi = zero_queue, g_q_fdi_to_recovery = zero_queue,
     g_q_fdi_to_logger = zero_queue\<rparr>"

text \<open>
  Set-up calls succeed, no echo pulse ever arrives, every read of the inertial sensors fails and the
  clock stands at 1 s.
\<close>

fun idle_rc :: "us_call \<Rightarrow> int" where
  "idle_rc Channel_create = 5"
| "idle_rc (Connect_attach c) = 6"
| "idle_rc (Msg_receive_pulse c) = -1"
| "idle_rc _ = 0"

fun idle_devctl :: "imu_call \<Rightarrow> int" where
  "idle_devctl (Devctl_read f a r n) = 5"
| "idle_devctl _ = 0"

definition idle_env :: mgr_env where
  "idle_env = \<lparr>us_part = \<lparr>env_rc = \<lambda>tr c. idle_rc c, env_pulse = \<lambda>tr. \<lparr>pulse_code = 0, pulse_value = 0\<rparr>,
       env_clock = \<lambda>tr. \<lparr>tv_sec = 1, tv_nsec = 0\<rparr>, pulse_code_minavail = 1\<rparr>,
     imu_part = \<lparr>malloc_ok = \<lambda>tr. True, devctl_err = \<lambda>tr c. idle_devctl c, devctl_bytes = \<lambda>tr c. []\<rparr>,
     open_rc = \<lambda>tr. 3, mutex_rc = \<lambda>tr. 0, mono_clock = \<lambda>tr. \<lparr>tv_sec = 1, tv_nsec = 0\<rparr>\<rparr>"

definition zero_world :: world where
  "zero_world = \<lparr>us_tr = [], imu_tr = [], mgr_tr = []\<rparr>"

definition idle_start :: "int \<times> globals \<times> world" where
  "idle_start = main_init idle_env 1 2 3 zero_globals zero_world"

lemma idle_start_ok: "fst idle_start = 0"
  by code_simp

lemma idle_init: "main_init idle_env 1 2 3 zero_globals zero_world = (0, fst (snd idle_start), snd (snd idle_start))"
  using idle_start_ok by (metis idle_start_def prod.collapse)

lemma idle_drained: "pulses_run_out (us_part idle_env) ch"
  by (auto simp: pulses_run_out_def idle_env_def)

definition idle_system :: system where
  "idle_system = start (fst (snd idle_start)) (snd (snd idle_start))"

text \<open>The system grants everything, but the log file only if \<open>b\<close>.\<close>

definition idle_os :: "bool \<Rightarrow> os_env" where
  "idle_os b = \<lparr>attach_rc = \<lambda>th ch. 7, fopen_ok = b, create_rc = \<lambda>t. 0, sched_rc = \<lambda>t. 0, send_fails = False\<rparr>"

definition idle_links :: "bool \<Rightarrow> links" where
  "idle_links b = connect_threads (idle_os b) (fst (snd idle_start))"

lemma idle_links_simps [simp]:
  "to_fdi (idle_links b)" "fdi_to_recovery (idle_links b)" "fdi_to_logger (idle_links b)"
  "recovery_to_logger (idle_links b)" "log_opens (idle_links b) = b" "created (idle_links b) t"
  "\<not> lossy (idle_links b)" "set_prio (idle_links b) t p = Some (wanted_priority t)"
  by (simp_all add: idle_links_def idle_os_def connect_threads_def queue_connect_def set_thread_priority_def)

abbreviation all_links :: links where "all_links \<equiv> idle_links True"

lemma idle_reached: "reached idle_env (idle_links b) idle_system"
  unfolding idle_system_def idle_links_def by (rule reached.loaded [OF idle_init refl])

text \<open>With the idle environment the sensor thread reaches its notification, and then its estimate.\<close>

lemma idle_sends: "\<exists>s now. runs idle_env (idle_links b) idle_system s \<and> fusion_th s = S_send now"
proof -
  have "created_ok (idle_links b) idle_system" using reached_threads [OF idle_reached] by simp
  then obtain s1 where s1: "runs idle_env (idle_links b) idle_system s1" "fusion_th s1 = S_start"
    using sensor_launched [of "idle_links b" idle_system] by (auto simp: idle_system_def start_def)
  let ?s2 = "(raise_prio (idle_links b) Sensor_Thread s1)\<lparr>fusion_th := again s1 (S_poll pair_order) S_gone\<rparr>"
  have "running s1" using reached_running [OF reached_runs [OF s1(1) idle_reached]] .
  then have "fusion_th ?s2 = S_poll pair_order" by simp
  then obtain s3 now where "runs idle_env (idle_links b) ?s2 s3" "fusion_th s3 = S_send now"
    using polls_stamped [of idle_env ?s2 pair_order "idle_links b"] idle_drained by auto
  then show ?thesis
    using s1(1) sys_step.sensor_start [OF s1(2), of idle_env "idle_links b"]
    by (meson converse_rtranclp_into_rtranclp rtranclp_trans)
qed

lemma idle_reaches_fuse:
  "\<exists>s now. runs idle_env all_links idle_system s \<and> fusion_th s = S_fuse now
    \<and> fdi_th s = F_turn now pair_order"
proof -
  obtain s now where s: "runs idle_env all_links idle_system s" "fusion_th s = S_send now"
    using idle_sends by blast
  have h: "healthy all_links s"
    using reached_healthy [OF reached_runs [OF s(1) idle_reached]] s(2) by simp
  obtain s1 where s1: "runs idle_env all_links s s1" "fusion_th s1 = S_send now" "work s1 = 0"
    using pipeline_rests [OF h] s(2) by metis
  have "sys_step idle_env all_links s1 (s1\<lparr>fusion_th := S_fuse now, fdi_th := F_turn now pair_order\<rparr>)"
    by (rule rest_notify [OF healthy_runs [OF s1(1) h] s1(3,2)])
  then show ?thesis
    using s(1) s1(1) by (intro exI [of _ "s1\<lparr>fusion_th := S_fuse now, fdi_th := F_turn now pair_order\<rparr>"] exI [of _ now])
      (auto intro: rtranclp_trans rtranclp.rtrancl_into_rtrancl)
qed

text \<open>The polls of an idle environment find nothing.\<close>

lemma idle_read_fails: "fst (measure_distance (us_part idle_env) u tr) \<noteq> 0"
  by (simp add: measure_distance_def receive_echo_event_def send_trigger_def idle_env_def Let_def GPIO_SUCCESS_def)

lemma idle_poll_us:
  assumes "poll_us idle_env u b w = Some (b', w')"
  shows "b' = b"
proof -
  obtain rc d tr where r: "ultrasonic_read (us_part idle_env) (Some u) True (us_tr w) = Some (rc, d, tr)"
    using assms by (auto simp: poll_us_def split: option.splits)
  then obtain tr0 where "measure_distance (us_part idle_env) u tr0 = (rc, d, tr)"
    by (auto simp: ultrasonic_read_def)
  then have "rc \<noteq> 0" using idle_read_fails [of u tr0] by simp
  then show ?thesis using assms r by (simp add: poll_us_def Let_def)
qed

lemma idle_poll_imu: "poll_imu idle_env m b w = (b', w') \<Longrightarrow> b' = b"
  by (cases "mpu6050_read (imu_part idle_env) (Some m) True (imu_tr w)")
    (auto simp: poll_imu_def mpu6050_read_def i2c_read_bytes_def idle_env_def EOK_def Let_def split: if_splits)

lemma idle_poll: "poll_sensor idle_env m i w = Some (m', w') \<Longrightarrow> m' = m"
  by (cases i) (auto simp: poll_sensor_def split: prod.splits dest!: idle_poll_us idle_poll_imu)

lemma idle_polls:
  "fusion_th s = S_poll is \<Longrightarrow> \<exists>s'. runs idle_env lk s s' \<and> fusion_th s' = S_poll [] \<and> glob s' = glob s
    \<and> fdi_th s' = fdi_th s \<and> logger_th s' = logger_th s"
proof (induction "is" arbitrary: s)
  case (Cons i "is")
  obtain m w1 where p: "poll_sensor idle_env (g_mgr (glob s)) i (wld s) = Some (m, w1)"
    using poll_sensor_returns [of idle_env] idle_drained by blast
  let ?s1 = "s\<lparr>glob := (glob s)\<lparr>g_mgr := m\<rparr>, wld := w1, fusion_th := S_poll is\<rparr>"
  have "sys_step idle_env lk s ?s1" by (rule sys_step.poll [OF Cons.prems p])
  moreover obtain s' where "runs idle_env lk ?s1 s'" "fusion_th s' = S_poll []" "glob s' = glob ?s1"
      "fdi_th s' = fdi_th ?s1" "logger_th s' = logger_th ?s1"
    using Cons.IH [of ?s1] by auto
  moreover have "glob ?s1 = glob s" using idle_poll [OF p] by simp
  ultimately show ?case by (intro exI [of _ s']) (auto intro: converse_rtranclp_into_rtranclp)
qed blast

text \<open>A schedule in which the logger does not start: the detector takes its first turn.\<close>

lemma idle_first_turn:
  "\<exists>s now. runs idle_env all_links idle_system s \<and> fdi_th s = F_turn now pair_order
     \<and> logger_th s = L_start \<and> fusion_th s = S_fuse now \<and> glob s = glob idle_system"
proof -
  let ?run = "runs idle_env all_links" and ?step = "sys_step idle_env all_links"
  have next_step: "?run idle_system u" if "?run idle_system t" "?step t u" for t u
    using that by (rule rtranclp.rtrancl_into_rtrancl)
  have "main_th idle_system = M_create create_order" by (simp add: idle_system_def start_def)
  then obtain s1 where s1: "?run idle_system s1" "fdi_th s1 = F_start" "logger_th s1 = L_start" "fusion_th s1 = S_start"
      "glob s1 = glob idle_system"
    using all_launched [of idle_system all_links idle_env] by fastforce
  have run: "running s1" using reached_running [OF reached_runs [OF s1(1) idle_reached]] .
  let ?s2 = "(raise_prio all_links Fdi_Thread s1)\<lparr>fdi_th := again s1 F_recv F_gone\<rparr>"
  let ?s3 = "(raise_prio all_links Sensor_Thread ?s2)\<lparr>fusion_th := again ?s2 (S_poll pair_order) S_gone\<rparr>"
  have s2: "?run idle_system ?s2" using s1(1) sys_step.fdi_start [OF s1(2)] by (rule next_step)
  have s3: "?run idle_system ?s3" using s2 by (rule next_step) (rule sys_step.sensor_start, use s1(4) in simp)
  obtain s4 where s4: "?run ?s3 s4" "fusion_th s4 = S_poll []" "glob s4 = glob idle_system" "fdi_th s4 = F_recv"
      "logger_th s4 = L_start"
    using idle_polls [of ?s3 pair_order all_links] s1(3,5) run by auto
  obtain now w where t: "main_now_us idle_env (wld s4) = (now, w)" by fastforce
  let ?s5 = "s4\<lparr>wld := w, fusion_th := (if to_fdi all_links then S_send now else S_fuse now)\<rparr>"
  let ?s6 = "?s5\<lparr>fusion_th := S_fuse now, fdi_th := F_turn now pair_order\<rparr>"
  have s5: "?run idle_system ?s5" using rtranclp_trans [OF s3 s4(1)] sys_step.stamp [OF s4(2) t] by (rule next_step)
  have "?run idle_system ?s6" using s5 by (rule next_step) (rule sys_step.notify, use s4(4) in simp_all)
  then show ?thesis using s4(3,5) by (intro exI [of _ ?s6] exI [of _ now]) simp
qed

text \<open>It has an event for the logger, and has found the silent ranger delayed.\<close>

lemma idle_at_log:
  "\<exists>s now ev is. runs idle_env all_links idle_system s \<and> fdi_th s = F_log ev now is
     \<and> logger_th s = L_start \<and> fusion_th s = S_fuse now"
proof -
  obtain s now where s: "runs idle_env all_links idle_system s" "fdi_th s = F_turn now pair_order"
      "logger_th s = L_start" "fusion_th s = S_fuse now"
    using idle_first_turn by blast
  let ?s1 = "s\<lparr>glob := evaluate_pair (glob s) SENSOR_US1 now, fdi_th := F_event SENSOR_US1 now (tl pair_order)\<rparr>"
  obtain ev where ev: "pair_event (glob ?s1) SENSOR_US1 now = Some ev"
    using pair_event_Some [of SENSOR_US1] real_sensor_iff by fastforce
  let ?s2 = "?s1\<lparr>fdi_th := F_log ev now (tl pair_order)\<rparr>"
  obtain c where "ctx_for_id (glob s) SENSOR_US1 = Some c" by simp
  then have "runs idle_env all_links s ?s1"
    using turn_runs [of s now SENSOR_US1 "tl pair_order" c] s(2) by (simp add: pair_order_def)
  moreover have "sys_step idle_env all_links ?s1 ?s2" by (rule sys_step.build_event [OF _ ev]) simp
  ultimately have "runs idle_env all_links idle_system ?s2" using s(1) by (meson rtranclp.rtrancl_into_rtrancl rtranclp_trans)
  then show ?thesis using s(3,4) by (intro exI [of _ ?s2] exI [of _ now] exI [of _ ev] exI [of _ "tl pair_order"]) simp
qed

lemma idle_first_verdict:
  "\<exists>c. ctx_for_id (glob idle_system) SENSOR_US1 = Some c \<and> state c = STATE_HEALTHY
    \<and> fdi_detect (Some c) (buf_for_id (glob idle_system) SENSOR_US1) r now = FAULT_DELAYED"
proof -
  let ?g = "fst (snd idle_start)"
  have us1: "SENSOR_US1 \<in> set pair_order" by (simp add: pair_order_def)
  obtain c where c: "life_of ?g SENSOR_US1 = Some (c, zero_sup)" "state c = STATE_HEALTHY"
    using main_init_inv [OF idle_init] us1 by blast
  have "map_option history (mgr_buffer (g_mgr ?g) SENSOR_US1) = Some []"
    using main_init_inv [OF idle_init] us1 by blast
  then obtain b where b: "mgr_buffer (g_mgr ?g) SENSOR_US1 = Some b" "history b = []" by auto
  have "sample_count b = 0" using length_history [of b] b(2) by (simp add: unat_eq_zero)
  then have "fdi_detect (Some c) (buf_for_id ?g SENSOR_US1) r now = FAULT_DELAYED"
    using silent_detect b(1) by (simp add: buf_for_id_def)
  then show ?thesis using c by (simp add: idle_system_def start_def life_of_def)
qed

text \<open>The moment before it judges the silent ranger.\<close>

lemma idle_to_judge:
  "\<exists>s now. runs idle_env all_links idle_system s \<and> glob s = glob idle_system
     \<and> fdi_th s = F_check SENSOR_US1 STATE_HEALTHY (D_done FAULT_DELAYED) now (tl pair_order)"
proof -
  obtain s now where s: "runs idle_env all_links idle_system s" "fdi_th s = F_turn now pair_order"
      "glob s = glob idle_system"
    using idle_first_turn by blast
  let ?b = "buf_for_id (glob s) SENSOR_US1" and ?r = "buf_for_id (glob s) (sensor_redundant_pair SENSOR_US1)"
  obtain c where c: "ctx_for_id (glob s) SENSOR_US1 = Some c" "state c = STATE_HEALTHY"
      "fdi_detect (Some c) ?b ?r now = FAULT_DELAYED"
    using idle_first_verdict [of ?r now] s(3) by metis
  let ?at = "\<lambda>p. s\<lparr>fdi_th := F_check SENSOR_US1 STATE_HEALTHY p now (tl pair_order)\<rparr>"
  have "sys_step idle_env all_links s (?at (detect_start ?b))"
    using sys_step.begin_turn [OF _ c(1), of now "tl pair_order"] s(2) c(2) by (simp add: pair_order_def)
  moreover have "runs idle_env all_links (?at (detect_start ?b)) (?at (D_done FAULT_DELAYED))"
    using checks_run [OF c(1), of idle_env all_links STATE_HEALTHY "detect_start ?b" now "tl pair_order" 6]
      detect_steps [of c ?b ?r now] c(3) by simp
  ultimately have "runs idle_env all_links idle_system (?at (D_done FAULT_DELAYED))"
    using s(1) by (meson rtranclp.rtrancl_into_rtrancl rtranclp_trans)
  then show ?thesis using s(3) by (intro exI [of _ "?at (D_done FAULT_DELAYED)"] exI [of _ now]) simp
qed

lemma idle_reaches_combine:
  "\<exists>s now a b. runs idle_env all_links idle_system s \<and> fusion_th s = S_combine now a b"
proof -
  obtain s now where s: "runs idle_env all_links idle_system s" "fusion_th s = S_fuse now"
    using idle_reaches_fuse by blast
  obtain s1 a where s1: "sys_step idle_env all_links s s1" "fusion_th s1 = S_second now a"
    using sys_step.read_first [OF s(2)] by fastforce
  obtain s2 b where "sys_step idle_env all_links s1 s2" "fusion_th s2 = S_combine now a b"
    using sys_step.read_second [OF s1(2)] by fastforce
  then show ?thesis using s(1) s1(1) by (meson rtranclp.rtrancl_into_rtrancl)
qed

lemma idle_shows: "\<exists>s. runs idle_env all_links idle_system s \<and> 0 < length (screen s)"
proof -
  obtain s now where s: "runs idle_env all_links idle_system s" "fusion_th s = S_fuse now"
    using idle_reaches_fuse by blast
  have "shows_more idle_env all_links idle_system" using shows_more_before [OF s(1) fuse_more [OF s(2)]] .
  then show ?thesis unfolding shows_more_def using gr_zeroI not_less_zero by metis
qed

end
