(* ===== verification/State_Owner.thy ===== *)
theory State_Owner
  imports Thread_Life
begin

text \<open>
  Who moves a sensor along its state diagram, and on what evidence: the detector between HEALTHY,
  SUSPECT, FAULTED and EXCLUDED, the recovery thread out of EXCLUDED, PROBING and VALIDATING, each on
  the verdict it came to; and what a verdict says of the buffers, which the sensor thread may write
  while the checks are made.
\<close>

section \<open>Moves\<close>

inductive verdict_edge :: "thread_name \<Rightarrow> fault_type \<Rightarrow> sensor_state \<Rightarrow> sensor_state \<Rightarrow> bool" where
  suspected: "d \<noteq> FAULT_NONE \<Longrightarrow> verdict_edge Fdi_Thread d STATE_HEALTHY STATE_SUSPECT"
| absolved: "verdict_edge Fdi_Thread FAULT_NONE STATE_SUSPECT STATE_HEALTHY"
| condemned: "d \<noteq> FAULT_NONE \<Longrightarrow> d \<noteq> FAULT_CONTRADICTORY \<Longrightarrow> verdict_edge Fdi_Thread d STATE_SUSPECT STATE_FAULTED"
| answered: "verdict_edge Recovery_Thread FAULT_NONE STATE_PROBING STATE_VALIDATING"
| rejected: "d \<noteq> FAULT_NONE \<Longrightarrow> s \<in> {STATE_PROBING, STATE_VALIDATING} \<Longrightarrow> verdict_edge Recovery_Thread d s STATE_EXCLUDED"
| readmitted: "verdict_edge Recovery_Thread FAULT_NONE STATE_VALIDATING STATE_HEALTHY"

code_pred verdict_edge .

inductive_simps detector_edges: "verdict_edge Fdi_Thread d s s'"
inductive_simps recovery_edges: "verdict_edge Recovery_Thread d s s'"

text \<open>No thread but these two moves a sensor.\<close>

inductive_cases no_other_owner: "verdict_edge Sensor_Thread d s s'" "verdict_edge Logger_Thread d s s'"

lemma verdict_edge_fsm: "verdict_edge t d s s' \<Longrightarrow> fsm_edge s s'"
  by (induction rule: verdict_edge.induct) auto

lemma judge_edge:
  assumes "state (judge_sensor c b d) \<noteq> state c" "needs_recovery b \<or> state c = b"
  shows "verdict_edge Fdi_Thread d (state c) (state (judge_sensor c b d))"
proof -
  have "judge_sensor c b d = update_ctx c d" "b = STATE_HEALTHY \<or> b = STATE_SUSPECT"
    using assms by (auto simp: judge_sensor_def needs_recovery_def split: sensor_state.splits)
  then show ?thesis
    using assms by (auto simp: needs_recovery_def detector_edges update_ctx_def Let_def split: if_splits)
qed

lemma conclude_edge:
  "state (conclude_sensor c b d) \<noteq> state c \<Longrightarrow> state c = STATE_FAULTED \<and> state (conclude_sensor c b d) = STATE_EXCLUDED"
  by (auto simp: conclude_sensor_def isolate_if_faulted_def isolate_ctx_def split: sensor_state.splits if_splits)

lemma switch_edge:
  "recover_switch up c v now = Some (c', v', evs) \<Longrightarrow> state c' \<noteq> state c
   \<Longrightarrow> state c = STATE_EXCLUDED \<and> state c' = STATE_PROBING"
  by (cases "state c")
    (auto simp: recover_switch_def start_probe_ctx_def abandon_probe_def isolate_ctx_def Let_def split: if_splits)

lemma finish_edge:
  "finish_probe c v d = (c', v') \<Longrightarrow> probing c \<Longrightarrow> state c' \<noteq> state c \<Longrightarrow> verdict_edge Recovery_Thread d (state c) (state c')"
  by (auto simp: finish_probe_def probing_def probe_ctx_def recovery_edges Let_def split: if_splits)

text \<open>A step of the program that moves a sensor.\<close>

definition moved_by :: "system \<Rightarrow> sensor_id \<Rightarrow> sensor_state \<Rightarrow> sensor_state \<Rightarrow> bool" where
  "moved_by s i x y =
     ((\<exists>b d now is. fdi_th s = F_check i b (D_done d) now is \<and> verdict_edge Fdi_Thread d x y)
      \<or> (\<exists>b d now is. fdi_th s = F_isolate i b d now is \<and> x = STATE_FAULTED \<and> y = STATE_EXCLUDED)
      \<or> (\<exists>ev. recovery_th s = R_handle ev \<and> ev_id ev = i \<and> x = STATE_EXCLUDED \<and> y = STATE_PROBING)
      \<or> (\<exists>ev d. recovery_th s = R_check ev (D_done d) \<and> ev_id ev = i \<and> verdict_edge Recovery_Thread d x y))"

lemma moved_by_edge: "moved_by s i x y \<Longrightarrow> fsm_edge x y"
  using verdict_edge_fsm by (auto simp: moved_by_def)

text \<open>The sensor a step may change, and how.\<close>

lemma step_owner:
  assumes "sys_step env lk s s'" "sys_inv s" "ctx_for_id (glob s) i = Some c" "ctx_for_id (glob s') i = Some c'"
    and "state c' \<noteq> state c"
  shows "moved_by s i (state c) (state c')"
  using assms(1)
proof (cases rule: sys_step.cases)
  case (judge j b d now "is")
  obtain x v where x: "ctx_for_id (glob s) j = Some x" "needs_recovery b \<or> state x = b" "real_sensor j"
      "judge_pair (glob s) j b d = put_ctx (glob s) j (judge_sensor x b d)"
    using judge_effect [OF assms(2) judge(2)] by metis
  have "j = i" "x = c" "c' = judge_sensor c b d" using judge(1) x assms(3-5) by (auto split: if_splits)
  then show ?thesis using judge(2) judge_edge [of c b d] x(2) assms(5) by (auto simp: moved_by_def)
next
  case (isolate j b d now "is")
  obtain x v where x: "ctx_for_id (glob s) j = Some x" "real_sensor j"
      "conclude_pair (glob s) j b d = put_ctx (glob s) j (conclude_sensor x b d)"
    using isolate_effect [OF assms(2) isolate(2)] by metis
  have "j = i" "c' = conclude_sensor c b d" using isolate(1) x assms(3-5) by (auto split: if_splits)
  then show ?thesis using isolate(2) conclude_edge [of c b d] assms(5) by (auto simp: moved_by_def)
next
  case (recover ev g evs)
  obtain x v x' v' where x: "ctx_for_id (glob s) (ev_id ev) = Some x" "real_sensor (ev_id ev)"
      "recover_switch (recovery_to_logger lk) x v (ev_timestamp ev) = Some (x', v', evs)"
      "g = put_life (glob s) (ev_id ev) x' v'"
    using recover_effect [OF assms(2) recover(2,3)] by metis
  have "ev_id ev = i" "x = c" "x' = c'" using recover(1) x assms(3-5) by (auto split: if_splits)
  then show ?thesis using recover(2) switch_edge [OF x(3)] assms(5) by (auto simp: moved_by_def)
next
  case (finish_probe ev d)
  obtain x v x' v' where x: "ctx_for_id (glob s) (ev_id ev) = Some x" "real_sensor (ev_id ev)"
      "awaits x v (ev_timestamp ev)" "finish_probe x v d = (x', v')"
      "recovery_finish (glob s) ev d = put_life (glob s) (ev_id ev) x' v'"
    using finish_effect [OF assms(2) finish_probe(2)] by metis
  have "ev_id ev = i" "x = c" "x' = c'" using finish_probe(1) x assms(3-5) by (auto split: if_splits)
  then show ?thesis
    using finish_probe(2) finish_edge [OF x(4)] x(3) assms(5) by (auto simp: moved_by_def awaits_def)
qed (use assms(3-5) in auto)

text \<open>One step changes one sensor.\<close>

lemma step_changes_one:
  assumes "sys_step env lk s s'" "sys_inv s"
  obtains i where "\<And>j. real_sensor j \<Longrightarrow> j \<noteq> i \<Longrightarrow> life_of (glob s') j = life_of (glob s) j"
proof -
  have len: "length (g_sup (glob s)) = 4" using assms(2) by (simp add: sys_inv_def globals_inv_def)
  note res = that
  have quiet: thesis if "glob s' = glob s \<or> (\<exists>m. glob s' = (glob s)\<lparr>g_mgr := m\<rparr>) \<or> (\<exists>f. glob s' = (glob s)\<lparr>g_fusion := f\<rparr>)"
    using that by (intro res [of SENSOR_COUNT]) auto
  from assms(1) show thesis
  proof (cases rule: sys_step.cases)
    case (judge j b d now "is")
    obtain x v where "judge_pair (glob s) j b d = put_ctx (glob s) j (judge_sensor x b d)"
      using judge_effect [OF assms(2) judge(2)] by metis
    then show ?thesis using judge(1) by (intro res [of j]) simp
  next
    case (isolate j b d now "is")
    obtain x v where "conclude_pair (glob s) j b d = put_ctx (glob s) j (conclude_sensor x b d)"
      using isolate_effect [OF assms(2) isolate(2)] by metis
    then show ?thesis using isolate(1) by (intro res [of j]) simp
  next
    case (recover ev g evs)
    obtain x' v' where "g = put_life (glob s) (ev_id ev) x' v'" "real_sensor (ev_id ev)"
      using recover_effect [OF assms(2) recover(2,3)] by metis
    then show ?thesis using recover(1) len by (intro res [of "ev_id ev"]) simp
  next
    case (finish_probe ev d)
    obtain x' v' where "recovery_finish (glob s) ev d = put_life (glob s) (ev_id ev) x' v'" "real_sensor (ev_id ev)"
      using finish_effect [OF assms(2) finish_probe(2)] by metis
    then show ?thesis using finish_probe(1) len by (intro res [of "ev_id ev"]) simp
  qed (rule quiet; auto)+
qed

lemma step_moves_one:
  assumes "sys_step env lk s s'" "sys_inv s" "real_sensor i" "real_sensor j"
    and "life_of (glob s') i \<noteq> life_of (glob s) i" "life_of (glob s') j \<noteq> life_of (glob s) j"
  shows "i = j"
  using step_changes_one [OF assms(1,2)] assms(3-6) by metis

text \<open>The states along a run follow the diagram.\<close>

lemma step_edge:
  assumes "sys_step env lk s s'" "sys_inv s" "ctx_for_id (glob s) i = Some c" "ctx_for_id (glob s') i = Some c'"
  shows "fsm_edge\<^sup>*\<^sup>* (state c) (state c')"
  using moved_by_edge [OF step_owner [OF assms]] edge_path by blast

lemma runs_edge:
  assumes "runs env lk s s'" "sys_inv s" "real_sensor i" "ctx_for_id (glob s) i = Some c" "ctx_for_id (glob s') i = Some c'"
  shows "fsm_edge\<^sup>*\<^sup>* (state c) (state c')"
  using assms(1,5)
proof (induction arbitrary: c' rule: rtranclp_induct)
  case base
  then show ?case using assms(4) by simp
next
  case (step t u)
  have t: "sys_inv t" by (rule runs_inv [OF step.hyps(1) assms(2)])
  obtain x where "ctx_for_id (glob t) i = Some x" using ctx_for_id_None [of "glob t" i] assms(3) by auto
  then show ?case using step.IH step_edge [OF step.hyps(2) t _ step.prems] by (meson rtranclp_trans)
qed

end
