(* ===== verification/Thread_Verdicts.thy ===== *)
theory Thread_Verdicts
  imports State_Owner
begin

text \<open>
  What a verdict says of the buffers when the sensor thread of \<open>src/main.c\<close> may write them between two
  checks: there were moments of that evaluation at which the checks found what the verdict says. The
  detector and the recovery thread both come to their verdicts this way, which is the locale
  \<open>checker\<close>.
\<close>

section \<open>Moments of an evaluation\<close>

text \<open>
  A moment since which the thread has been in the same evaluation, and at which the context and the
  buffers of the sensor and of its twin were as \<open>P\<close> says.
\<close>

definition moment ::
  "mgr_env \<Rightarrow> links \<Rightarrow> (system \<Rightarrow> bool) \<Rightarrow> sensor_id \<Rightarrow> system
   \<Rightarrow> (fdi_context \<Rightarrow> sensor_buffer option \<Rightarrow> sensor_buffer option \<Rightarrow> bool) \<Rightarrow> bool" where
  "moment env lk Q i s P = (\<exists>u c. reached env lk u \<and> Q u \<and> runs_while env lk Q u s
     \<and> ctx_for_id (glob u) i = Some c \<and> P c (buf_for_id (glob u) i) (buf_for_id (glob u) (sensor_redundant_pair i)))"

text \<open>What the moments \<open>M\<close> hold for a verdict.\<close>

fun verdict_found ::
  "((fdi_context \<Rightarrow> sensor_buffer option \<Rightarrow> sensor_buffer option \<Rightarrow> bool) \<Rightarrow> bool) \<Rightarrow> u64 \<Rightarrow> fault_type \<Rightarrow> bool" where
  "verdict_found M now FAULT_DELAYED = M (\<lambda>c b r. check_delayed c b now)"
| "verdict_found M now FAULT_STUCK = M (\<lambda>c b r. check_stuck c b)"
| "verdict_found M now FAULT_NOISY = M (\<lambda>c b r. check_noisy c b)"
| "verdict_found M now FAULT_CONTRADICTORY =
     (\<exists>x y. M (\<lambda>c b r. sensor_buffer_get_latest b True = Some x)
        \<and> M (\<lambda>c b r. sensor_buffer_get_latest r True = Some y \<and> samples_differ c x y))"
| "verdict_found M now FAULT_NONE =
     (M (\<lambda>c b r. sensor_buffer_count b \<noteq> 0) \<and> M (\<lambda>c b r. \<not> stale c (sensor_buffer_last_timestamp b) now)
      \<and> M (\<lambda>c b r. \<not> check_stuck c b) \<and> M (\<lambda>c b r. \<not> check_noisy c b))"

text \<open>What they hold when the evaluation has come to a point.\<close>

function found ::
  "((fdi_context \<Rightarrow> sensor_buffer option \<Rightarrow> sensor_buffer option \<Rightarrow> bool) \<Rightarrow> bool) \<Rightarrow> u64 \<Rightarrow> detect_point \<Rightarrow> bool" where
  "found M now D_count = True"
| "found M now D_last = M (\<lambda>c b r. sensor_buffer_count b \<noteq> 0)"
| "found M now D_stuck = (found M now D_last \<and> M (\<lambda>c b r. \<not> stale c (sensor_buffer_last_timestamp b) now))"
| "found M now D_noisy = (found M now D_stuck \<and> M (\<lambda>c b r. \<not> check_stuck c b))"
| "found M now D_self = (found M now D_noisy \<and> M (\<lambda>c b r. \<not> check_noisy c b))"
| "found M now (D_twin x) = (found M now D_self \<and> M (\<lambda>c b r. sensor_buffer_get_latest b True = Some x))"
| "found M now (D_done d) = verdict_found M now d"
  by pat_completeness auto
termination by (relation "measure (\<lambda>(M, now, p). 7 - detect_work p)") auto

lemma found_mono:
  assumes "found M now p" "\<And>P. M P \<Longrightarrow> M' P"
  shows "found M' now p"
proof (cases p)
  case (D_done d)
  then show ?thesis using assms by (cases d) auto
qed (use assms in auto)

lemma moment_later:
  assumes "moment env lk Q i s P" "sys_step env lk s s'" "Q s"
  shows "moment env lk Q i s' P"
proof -
  have "runs_while env lk Q u s'" if "runs_while env lk Q u s" for u
    using that conjI [OF assms(2,3)] by (rule rtranclp.rtrancl_into_rtrancl)
  then show ?thesis using assms(1) unfolding moment_def by blast
qed

lemma moment_now:
  assumes "reached env lk s" "sys_step env lk s s'" "Q s" "ctx_for_id (glob s) i = Some c"
    and "P c (buf_for_id (glob s) i) (buf_for_id (glob s) (sensor_redundant_pair i))"
  shows "moment env lk Q i s' P"
proof -
  have "runs_while env lk Q s s'" using assms(2,3) by (intro r_into_rtranclp) simp
  then show ?thesis using assms unfolding moment_def by blast
qed

lemma found_step:
  assumes "found (moment env lk Q i s) now p" "\<not> decided p" "reached env lk s" "sys_step env lk s s'" "Q s"
    and "ctx_for_id (glob s) i = Some c"
  shows "found (moment env lk Q i s') now
    (detect_step c (buf_for_id (glob s) i) (buf_for_id (glob s) (sensor_redundant_pair i)) now p)"
proof -
  note n = moment_now [where Q = Q, OF assms(3-6)]
  have l: "found (moment env lk Q i s') now p"
    using assms(1) by (rule found_mono) (rule moment_later, assumption, rule assms(4), rule assms(5))
  show ?thesis
  proof (cases p)
    case D_count
    then show ?thesis using n by (simp add: check_delayed_def)
  next
    case D_last
    then show ?thesis using l n by (simp add: check_delayed_def)
  next
    case (D_twin x)
    show ?thesis
    proof (cases "sensor_buffer_get_latest (buf_for_id (glob s) (sensor_redundant_pair i)) True")
      case None
      then show ?thesis using l D_twin by simp
    next
      case (Some y)
      show ?thesis
      proof (cases "samples_differ c x y")
        case True
        have "moment env lk Q i s' (\<lambda>c b r. sensor_buffer_get_latest r True = Some y \<and> samples_differ c x y)"
          by (rule n) (use Some True in simp)
        then show ?thesis using l D_twin Some True by auto
      qed (use l D_twin Some in simp)
    qed
  qed (use l n assms(2) in \<open>auto split: option.split\<close>)
qed

section \<open>The two checkers\<close>

locale checker =
  fixes at :: "system \<Rightarrow> detect_point option"
    and i :: sensor_id
    and now :: u64
  assumes at_start: "at (start g w) = None"
    and at_step: "sys_step env lk s s' \<Longrightarrow> sys_inv s \<Longrightarrow> at s' = Some p' \<Longrightarrow>
      at s = Some p' \<or> p' = D_count
      \<or> (\<exists>p c. at s = Some p \<and> \<not> decided p \<and> ctx_for_id (glob s) i = Some c
          \<and> p' = detect_step c (buf_for_id (glob s) i) (buf_for_id (glob s) (sensor_redundant_pair i)) now p)"
begin

lemma reached_found:
  "reached env lk s \<Longrightarrow> at s = Some p \<Longrightarrow> found (moment env lk (\<lambda>u. at u \<noteq> None) i s) now p"
proof (induction arbitrary: p rule: reached.induct)
  case (loaded a b c g0 w0 g w os)
  then show ?case by (simp add: at_start)
next
  case (moved s s')
  consider (same) "at s = Some p" | (new) "p = D_count"
    | (step) q c where "at s = Some q" "\<not> decided q" "ctx_for_id (glob s) i = Some c"
        "p = detect_step c (buf_for_id (glob s) i) (buf_for_id (glob s) (sensor_redundant_pair i)) now q"
    using at_step [OF moved.hyps(2) reached_inv [OF moved.hyps(1)] moved.prems] by blast
  then show ?case
  proof cases
    case same
    show ?thesis
      using moved.IH [OF same]
      by (rule found_mono) (rule moment_later, assumption, rule moved.hyps(2), use same in simp)
  next
    case step
    then show ?thesis using found_step [OF moved.IH [OF step(1)] step(2) moved.hyps(1,2) _ step(3)] by simp
  qed simp
qed

end

text \<open>Where the detector is in its evaluation of a sensor, and the recovery thread in that of a probe.\<close>

definition detector_at :: "sensor_id \<Rightarrow> sensor_state \<Rightarrow> u64 \<Rightarrow> sensor_id list \<Rightarrow> system \<Rightarrow> detect_point option" where
  "detector_at i b now is s = (case fdi_th s of
     F_check j b' p now' js \<Rightarrow> if j = i \<and> b' = b \<and> now' = now \<and> js = is then Some p else None | _ \<Rightarrow> None)"

definition prober_at :: "fault_event \<Rightarrow> system \<Rightarrow> detect_point option" where
  "prober_at ev s = (case recovery_th s of R_check e p \<Rightarrow> if e = ev then Some p else None | _ \<Rightarrow> None)"

lemma real_buffer: "real_sensor i \<Longrightarrow> \<exists>b. buf_for_id g i = Some b"
  by (cases i) (auto simp: buf_for_id_def sensor_manager_get_buffer_def real_sensor_iff)

lemma detect_start_real: "real_sensor i \<Longrightarrow> detect_start (buf_for_id g i) = D_count"
  using real_buffer [of i g] by (auto simp: detect_start_def)

interpretation det: checker "detector_at i b now is" i now for i b now "is"
proof
  show "detector_at i b now is (start g w) = None" for g w
    by (simp add: detector_at_def start_def)
  fix env lk s s' p'
  assume st: "sys_step env lk s s'" and inv: "sys_inv s" and p': "detector_at i b now is s' = Some p'"
  from st show "detector_at i b now is s = Some p' \<or> p' = D_count
      \<or> (\<exists>p c. detector_at i b now is s = Some p \<and> \<not> decided p \<and> ctx_for_id (glob s) i = Some c
          \<and> p' = detect_step c (buf_for_id (glob s) i) (buf_for_id (glob s) (sensor_redundant_pair i)) now p)"
  proof (cases rule: sys_step.cases)
    case (begin_turn t j js c)
    have "real_sensor j" using begin_turn(2) inv by (simp add: sys_inv_def)
    then show ?thesis using begin_turn p' by (auto simp: detector_at_def detect_start_real split: if_splits)
  qed (use p' in \<open>auto simp: detector_at_def again_def split: if_splits\<close>)
qed

interpretation prb_at: checker "prober_at ev" "ev_id ev" "ev_timestamp ev" for ev
proof
  show "prober_at ev (start g w) = None" for g w
    by (simp add: prober_at_def start_def)
  fix env lk s s' p'
  assume st: "sys_step env lk s s'" and inv: "sys_inv s" and p': "prober_at ev s' = Some p'"
  from st show "prober_at ev s = Some p' \<or> p' = D_count
      \<or> (\<exists>p c. prober_at ev s = Some p \<and> \<not> decided p \<and> ctx_for_id (glob s) (ev_id ev) = Some c
          \<and> p' = detect_step c (buf_for_id (glob s) (ev_id ev)) (buf_for_id (glob s) (sensor_redundant_pair (ev_id ev)))
              (ev_timestamp ev) p)"
  proof (cases rule: sys_step.cases)
    case (begin_probe e c)
    have i: "real_sensor (ev_id e)" using begin_probe(2) inv by (simp add: sys_inv_def)
    obtain x where "ctx_for_id (glob s) (ev_id e) = Some x" "ctx_id x = ev_id e" using sensor_life [OF inv i] by metis
    then show ?thesis using begin_probe p' i by (auto simp: prober_at_def detect_start_real split: if_splits)
  next
    case (probe_check e p c)
    obtain x where "ctx_for_id (glob s) (ev_id e) = Some x" "ctx_id x = ev_id e" "redundant_id x = sensor_redundant_pair (ev_id e)"
      using finish_effect [OF inv probe_check(2)] by metis
    then show ?thesis using probe_check p' by (auto simp: prober_at_def split: if_splits)
  qed (use p' in \<open>auto simp: prober_at_def again_def split: if_splits\<close>)
qed

lemma detector_found:
  assumes "reached env lk s" "fdi_th s = F_check i b p now is"
  shows "found (moment env lk (\<lambda>u. detector_at i b now is u \<noteq> None) i s) now p"
  by (rule det.reached_found [OF assms(1)]) (simp add: assms(2) detector_at_def)

lemma prober_found:
  assumes "reached env lk s" "recovery_th s = R_check ev p"
  shows "found (moment env lk (\<lambda>u. prober_at ev u \<noteq> None) (ev_id ev) s) (ev_timestamp ev) p"
  by (rule prb_at.reached_found [OF assms(1)]) (simp add: assms(2) prober_at_def)

end
