(* ===== verification/System_Properties.thy ===== *)
theory System_Properties
  imports Idle_Run Thread_Verdicts
begin

text \<open>
  Properties of the program as a whole: its four threads from the start-up of \<open>main\<close> on, under
  every schedule. They are applied to a start-up in which no ranger ever answers.
\<close>

section \<open>Start-up\<close>

text \<open>
  Start-up. When \<open>main\<close> reaches the creation of its threads, the four buffers are empty and
  well formed, the four contexts are HEALTHY with their own identity and limits of three, nothing is
  latched, and the fusion state is empty.
\<close>

lemma start_up:
  assumes "main_init env a b c g w = (0, g', w')"
  shows "globals_inv g' \<and> g_fusion g' = zero_state
    \<and> (\<forall>i\<in>set pair_order. map_option history (mgr_buffer (g_mgr g') i) = Some []
         \<and> (\<exists>c. life_of g' i = Some (c, zero_sup) \<and> ctx_id c = i \<and> state c = STATE_HEALTHY
               \<and> recover_limit c = 3 \<and> confirm_limit c = 3))"
  by (rule main_init_inv [OF assms])


text \<open>
  C1. The program's invariant. In every state the four threads can reach after start-up, under
  every interleaving, every device behaviour and whichever connections failed: each sensor's context
  keeps its identity and its counters within their limits and is FAULTED only while the detector is
  about to isolate it, the buffers are well formed and hold only distances in (0, 500] cm and six-value inertial samples, and every result
  shown so far is valid exactly when its mode is not UNSAFE and, when measured, has
  0 <= safe <= distance <= 500.
\<close>

theorem program_invariant:
  assumes "reached env lk s"
  shows "mgr_inv (g_mgr (glob s))
    \<and> (\<forall>i\<in>set pair_order. \<exists>x v. life_of (glob s) i = Some (x, v) \<and> ctx_id x = i
          \<and> life_inv (x, v) \<and> (state x = STATE_FAULTED \<longrightarrow> isolating (fdi_th s) i))
    \<and> list_all result_ok (dashboard s)"
proof -
  have inv: "sys_inv s" by (rule reached_inv [OF assms])
  have "\<exists>x v. life_of (glob s) i = Some (x, v) \<and> ctx_id x = i
      \<and> life_inv (x, v) \<and> (state x = STATE_FAULTED \<longrightarrow> isolating (fdi_th s) i)" if "i \<in> set pair_order" for i
  proof -
    have "real_sensor i" using that by (simp add: pair_order_real)
    then obtain x v where x: "life_of (glob s) i = Some (x, v)" "ctx_for_id (glob s) i = Some x" "ctx_id x = i"
        "life_inv (x, v)"
      using sensor_life [OF inv] by metis
    have "state x = STATE_FAULTED \<longrightarrow> isolating (fdi_th s) i"
      using inv x(2) by (simp add: sys_inv_def faults_isolated_def)
    then show ?thesis using x by blast
  qed
  then show ?thesis using inv by (simp add: sys_inv_def globals_inv_def)
qed

theorem program_invariant_witness:
  "mgr_inv (g_mgr (glob idle_system))"
  using program_invariant [OF idle_reached] by simp

text \<open>
  C7. The dashboard never stops. As long as the log file opens and the kernel runs out of queued
  echo pulses, from every reachable state the program can go on to show another result: the reads of
  a poll return, the three other threads come to rest, and the notification is taken.
\<close>

theorem dashboard_grows:
  assumes "reached env lk s" "log_opens lk" "\<forall>t. created lk t"
    and "\<forall>ch. pulses_run_out (us_part env) ch"
  shows "\<exists>s'. runs env lk s s' \<and> length (screen s) < length (screen s')"
  using reached_more [OF assms(1,3,2,4)] by (simp add: shows_more_def)

theorem dashboard_grows_witness:
  "\<exists>s'. runs idle_env all_links idle_system s' \<and> 0 < length (screen s')"
proof -
  have "screen idle_system = []" by (simp add: idle_system_def start_def)
  then show ?thesis using dashboard_grows [OF idle_reached [of True]] idle_drained by auto
qed




definition no_detector :: os_env where
  "no_detector = (idle_os True)\<lparr>create_rc := \<lambda>t. if t = Fdi_Thread then 11 else 0\<rparr>"

lemma no_detector_reached:
  "reached idle_env (connect_threads no_detector (fst (snd idle_start))) idle_system"
  unfolding idle_system_def by (rule reached.loaded [OF idle_init refl])


text \<open>
  C31. The threads run for ever. \<open>main\<close> creates the four threads and then waits for the first of
  them: no thread returns, but a logger without its file, the rangers are never shut down, and every
  thread that is past its start has asked for the priority of its task.
\<close>

theorem threads_stay:
  assumes "reached env lk s"
  shows "((\<exists>ts. main_th s = M_create ts) \<or> main_th s = M_join join_order)
    \<and> (\<forall>t. returned s t \<longrightarrow> t = Logger_Thread \<and> \<not> log_opens lk)
    \<and> (\<forall>t. prio s t = (if waiting s t \<or> starting s t then None else set_prio lk t None))
    \<and> (main_th s = M_join join_order \<longrightarrow> (\<forall>t. waiting s t = (\<not> created lk t)))"
proof -
  have "main_thread_ok (main_th s)" using reached_inv [OF assms] by (simp add: sys_inv_def)
  then have "(\<exists>ts. main_th s = M_create ts) \<or> main_th s = M_join join_order" by (cases "main_th s") auto
  then show ?thesis
    using reached_threads [OF assms] reached_returned [OF assms] by (auto simp: created_ok_def prio_ok_def)
qed

theorem threads_stay_witness:
  "\<exists>s. runs idle_env all_links idle_system s \<and> fdi_th s \<noteq> F_start \<and> prio s Fdi_Thread = Some 25"
proof -
  obtain s now where s: "runs idle_env all_links idle_system s" "fdi_th s = F_turn now pair_order"
    using idle_reaches_fuse by blast
  then have "prio s Fdi_Thread = Some 25"
    using threads_stay [OF reached_runs [OF s(1) idle_reached]] by (simp add: PRIO_FAULT_DETECTOR_def)
  moreover have "fdi_th s \<noteq> F_start" using s(2) by simp
  ultimately show ?thesis using s(1) by blast
qed



text \<open>
  C8. Every move of a sensor has one owner and its evidence. Whenever a step of a reachable program
  changes the state of a sensor, it is the detector in its turn of that sensor, between HEALTHY,
  SUSPECT, FAULTED and EXCLUDED, or the recovery thread handling an event of that sensor, out of
  EXCLUDED, PROBING or VALIDATING; the verdict that thread has come to is the one the move requires
  (only a delayed, stuck or noisy sensor is condemned, a contradiction never does), the move is an
  edge of the state diagram, and no other sensor changes in that step.
\<close>

theorem moves_have_owner:
  assumes "reached env lk s" "sys_step env lk s s'"
    and "ctx_for_id (glob s) i = Some c" "ctx_for_id (glob s') i = Some c'" "state c' \<noteq> state c"
  shows "moved_by s i (state c) (state c') \<and> fsm_edge (state c) (state c')
    \<and> (\<forall>j. real_sensor j \<and> j \<noteq> i \<longrightarrow> life_of (glob s') j = life_of (glob s) j)"
proof -
  have i: "real_sensor i" using assms(3) ctx_for_id_None [of "glob s" i] by auto
  have "life_of (glob s') i \<noteq> life_of (glob s) i" using assms(3-5) by (auto simp: life_of_def)
  then show ?thesis
    using step_owner [OF assms(2) reached_inv [OF assms(1)] assms(3-5)] moved_by_edge
      step_moves_one [OF assms(2) reached_inv [OF assms(1)] i] by blast
qed

theorem moves_have_owner_witness:
  "\<exists>s s' c c'. reached idle_env all_links s \<and> sys_step idle_env all_links s s'
    \<and> ctx_for_id (glob s) SENSOR_US1 = Some c \<and> ctx_for_id (glob s') SENSOR_US1 = Some c'
    \<and> state c' \<noteq> state c \<and> moved_by s SENSOR_US1 (state c) (state c')"
proof -
  obtain s now where s: "runs idle_env all_links idle_system s" "glob s = glob idle_system"
      "fdi_th s = F_check SENSOR_US1 STATE_HEALTHY (D_done FAULT_DELAYED) now (tl pair_order)"
    using idle_to_judge by blast
  let ?s' = "s\<lparr>glob := judge_pair (glob s) SENSOR_US1 STATE_HEALTHY FAULT_DELAYED,
    fdi_th := F_isolate SENSOR_US1 STATE_HEALTHY FAULT_DELAYED now (tl pair_order)\<rparr>"
  have r: "reached idle_env all_links s" by (rule reached_runs [OF s(1) idle_reached])
  have st: "sys_step idle_env all_links s ?s'" by (rule sys_step.judge [OF s(3)])
  obtain c where c: "ctx_for_id (glob s) SENSOR_US1 = Some c" "state c = STATE_HEALTHY"
    using idle_first_verdict s(2) by metis
  have c': "ctx_for_id (glob ?s') SENSOR_US1 = Some (update_ctx c FAULT_DELAYED)"
    using c(1) by (simp add: judge_pair_def judge_sensor_def real_sensor_iff)
  have n: "state (update_ctx c FAULT_DELAYED) \<noteq> state c" using c(2) by (simp add: update_ctx_def)
  show ?thesis using moves_have_owner [OF r st c(1) c' n] r st c(1) c' n by blast
qed

text \<open>
  C9. A verdict is what the checks found. The sensor thread may write a buffer between the checks of
  one evaluation; still, when the detector or the recovery thread has come to a verdict, there were
  moments since the beginning of that evaluation at which the buffers of the sensor and of its twin
  were as the verdict says: at one moment the sensor was delayed, stuck or noisy, or its newest sample
  and the one its twin had later differed by more than the threshold; and for a clean verdict it was,
  each at a moment, not stuck, not noisy and not too old.
\<close>

theorem verdicts_found:
  assumes "reached env lk s"
  shows "(fdi_th s = F_check i b (D_done d) now is \<longrightarrow>
      verdict_found (moment env lk (\<lambda>u. detector_at i b now is u \<noteq> None) i s) now d)
    \<and> (recovery_th s = R_check ev (D_done d) \<longrightarrow>
      verdict_found (moment env lk (\<lambda>u. prober_at ev u \<noteq> None) (ev_id ev) s) (ev_timestamp ev) d)"
  using detector_found [OF assms, of i b "D_done d" now "is"] prober_found [OF assms, of ev "D_done d"] by simp

theorem verdicts_found_witness:
  "\<exists>s now. runs idle_env all_links idle_system s
    \<and> verdict_found (moment idle_env all_links
          (\<lambda>u. detector_at SENSOR_US1 STATE_HEALTHY now (tl pair_order) u \<noteq> None) SENSOR_US1 s) now FAULT_DELAYED"
proof -
  obtain s now where s: "runs idle_env all_links idle_system s"
      "fdi_th s = F_check SENSOR_US1 STATE_HEALTHY (D_done FAULT_DELAYED) now (tl pair_order)"
    using idle_to_judge by blast
  then show ?thesis using verdicts_found [OF reached_runs [OF s(1) idle_reached]] by blast
qed

text \<open>
  C32. Every request to the GPIO server is valid. Whatever the devices answer, each request of the
  start-up, of a failed start-up, of every poll and of a shutdown has the arguments that
  \<open>rpi_gpio.h\<close> admits: a pin below 28, and a configuration, pull, level or event of its
  enumeration.
\<close>

theorem gpio_requests_valid:
  assumes "main_init env a b c g w = (rc, g', w')" "requests_ok (us_tr w)"
  shows "requests_ok (us_tr w')
    \<and> (rc = 0 \<longrightarrow> (\<forall>lk s. runs env lk (start g' w') s \<longrightarrow> requests_ok (us_tr (wld s))
        \<and> requests_ok (us_tr (snd (sensor_manager_shutdown (Some (g_mgr (glob s))) (wld s))))))"
proof -
  note m = main_init_requests [OF assms]
  have "pins_inv (g_mgr (glob s)) (wld s)" if "rc = 0" "runs env lk (start g' w') s" for lk s
    using pins_runs [OF that(2)] start_inv [of env a b c g w g' w'] assms(1) m that(1) by (simp add: start_def)
  then show ?thesis
    using m sensor_manager_shutdown_requests by (metis pins_inv_def prod.collapse)
qed

theorem gpio_requests_valid_witness:
  "\<exists>s. runs idle_env all_links idle_system s \<and> 0 < length (screen s) \<and> requests_ok (us_tr (wld s))"
proof -
  obtain s where s: "runs idle_env all_links idle_system s" "0 < length (screen s)" using idle_shows by blast
  moreover have "requests_ok (us_tr zero_world)" by (simp add: zero_world_def)
  ultimately show ?thesis
    using gpio_requests_valid [OF idle_init] unfolding idle_system_def by blast
qed

text \<open>
  C30. One notification is a bounded amount of work. Between two actions of the sensor thread, the
  detector, the recovery thread, the logger and \<open>main\<close> take at most 108 steps with an effect
  together, from every reachable state; a receive that fails and is tried again has none.
\<close>

theorem notification_bounded:
  assumes "reached env lk s" "(inner_step env lk ^^ n) s s'"
  shows "n \<le> 108"
  using inner_steps_work [OF assms(2) reached_inv [OF assms(1)]] work_bound [OF reached_inv [OF assms(1)]]
  by simp

theorem notification_bounded_witness:
  "\<exists>s s'. runs idle_env all_links idle_system s
    \<and> (inner_step idle_env all_links ^^ 1) s s' \<and> (1::nat) \<le> 108"
proof -
  obtain s now where s: "runs idle_env all_links idle_system s" "fdi_th s = F_turn now pair_order"
    using idle_reaches_fuse by blast
  have r: "reached idle_env all_links s" using reached_runs [OF s(1) idle_reached] .
  obtain c where c: "ctx_for_id (glob s) SENSOR_US1 = Some c" by simp
  let ?t = "s\<lparr>fdi_th := F_check SENSOR_US1 (state c) (detect_start (buf_for_id (glob s) SENSOR_US1)) now (tl pair_order)\<rparr>"
  have "fdi_th ?t \<noteq> fdi_th s" using s(2) by simp
  then have "?t \<noteq> s" by metis
  moreover have "sys_step idle_env all_links s ?t"
    by (rule sys_step.begin_turn [OF _ c]) (use s(2) in \<open>simp add: pair_order_def\<close>)
  ultimately have "(inner_step idle_env all_links ^^ 1) s ?t" by (simp add: inner_step_def eq_OO)
  then show ?thesis using s(1) notification_bounded [OF r, of 1] by blast
qed

text \<open>
  C12. What the dashboard shows agrees with the sensors' states. Whenever a reachable program computes
  a new result, there are two earlier moments of the same cycle, one for each ultrasonic sensor,
  since which the buffers have not changed, such that the mode is the one the ladder gives for the
  state each sensor had at its moment, however the detector and the recovery thread interleave; a
  sensor out of service at its moment is never counted as a contributor.
\<close>

theorem dashboard_follows_states:
  assumes "reached env lk s" "sys_step env lk s s'" "dashboard s' \<noteq> dashboard s"
  shows "\<exists>r now s1 s2. dashboard s' = dashboard s @ [r]
    \<and> reached env lk s1 \<and> fusion_th s1 = S_fuse now \<and> runs env lk s1 s2 \<and> runs env lk s2 s
    \<and> g_mgr (glob s1) = g_mgr (glob s) \<and> g_mgr (glob s2) = g_mgr (glob s)
    \<and> mode r = ladder (contributing (g_mgr (glob s)) (g_us1_ctx (glob s1)) now)
        (contributing (g_mgr (glob s)) (g_us2_ctx (glob s2)) now) (held (g_fusion (glob s)) now)
    \<and> contributors r \<le> of_bool (\<not> needs_recovery (state (g_us1_ctx (glob s1))))
        + of_bool (\<not> needs_recovery (state (g_us2_ctx (glob s2))))"
  using assms(2)
proof (cases rule: sys_step.cases)
  case (fuse now a b fs r)
  obtain s1 s2 where 1: "first_read env lk s1 now a s2" and 2: "second_read env lk s2 now a b s"
    using reached_readings [OF assms(1)] fuse(2) by (auto simp: readings_def)
  have m: "g_mgr (glob s1) = g_mgr (glob s)" "g_mgr (glob s2) = g_mgr (glob s)"
    using 1 2 by (simp_all add: first_read_def second_read_def)
  have s1: "reached env lk s1" "runs env lk s1 s2" using 1 by (simp_all add: first_read_def)
  have r1: "range_ctx (g_mgr (glob s)) (g_us1_ctx (glob s1))"
    using range_ctx_globals(1) [OF sys_inv_globals [OF reached_inv [OF s1(1)]]] m(1) by simp
  have r2: "range_ctx (g_mgr (glob s)) (g_us2_ctx (glob s2))"
    using range_ctx_globals(2) [OF sys_inv_globals [OF reached_inv [OF reached_runs [OF s1(2,1)]]]] m(2) by simp
  have p: "present a = contributing (g_mgr (glob s)) (g_us1_ctx (glob s1)) now"
      "present b = contributing (g_mgr (glob s)) (g_us2_ctx (glob s2)) now"
    using 1 2 m by (simp_all add: first_read_def second_read_def present_iff [OF r1] present_iff [OF r2])
  have n: "contributing x c now \<Longrightarrow> \<not> needs_recovery (state c)" for c x
    by (auto simp: contributing_def needs_recovery_def state_is_usable_def)
  show ?thesis
    using 1 2 fuse(1) combine_ladder [OF fuse(3)] p m n s1
    by (intro exI [of _ r] exI [of _ now] exI [of _ s1] exI [of _ s2])
      (auto simp: first_read_def second_read_def)
qed (use assms(3) in auto)

theorem dashboard_follows_states_witness:
  "\<exists>s s' r now s1. runs idle_env all_links idle_system s \<and> sys_step idle_env all_links s s'
    \<and> dashboard s' = dashboard s @ [r] \<and> fusion_th s1 = S_fuse now \<and> runs idle_env all_links s1 s"
proof -
  obtain s now a b where s: "runs idle_env all_links idle_system s" "fusion_th s = S_combine now a b"
    using idle_reaches_combine by blast
  obtain s' r where s': "sys_step idle_env all_links s s'" "dashboard s' = dashboard s @ [r]"
    using fuse_step [OF s(2)] by blast
  then have "dashboard s' \<noteq> dashboard s" by auto
  then show ?thesis
    using dashboard_follows_states [OF reached_runs [OF s(1) idle_reached] s'(1)] s s'(1)
    by (metis (no_types, lifting) rtranclp_trans)
qed








definition shown_12_34 :: fusion_result where
  "shown_12_34 = zero_result\<lparr>mode := OP_FULL, valid := True, distance_cm := f32_lit 1234 100,
     uncertainty_cm := f32_lit 2 1, safe_distance_cm := f32_lit 1034 100, contributors := 2\<rparr>"

lemma shown_ok: "result_ok shown_12_34"
  by code_simp

lemma shown_line: "parking_line shown_12_34
  = ''[PARKING] dist=12.3cm (+/-2.0) zone=CRITICAL/STOP mode=FULL src=2''"
  by code_simp


end
