(* ===== verification/Sensor_Loss.thy ===== *)
theory Sensor_Loss
  imports Fdi_Life
begin

text \<open>
  The end of a sensor: what the detector of \<open>src/fault_detector.c\<close> and the two threads of
  \<open>src/main.c\<close> that drive it make of a sensor whose fault persists.
\<close>

section \<open>The configuration of a life\<close>

lemma life_step_cfg: "cfg (fst (life_step e x)) = cfg (fst x)"
proof (cases x; cases e)
  fix c v up d now
  assume "x = (c, v)" "e = Recovered up d now"
  then show ?thesis
    using life_step_recovered [of up c v d now] recover_on_frame [of up c v d now] by auto
qed simp_all

lemma life_run_cfg: "cfg (fst (life_run es x)) = cfg (fst x)"
  by (induction es arbitrary: x) (simp_all add: life_step_cfg)

section \<open>A fault that persists\<close>

text \<open>How far a sensor in service is from its exclusion after \<open>n\<close> evaluations that found a fault.\<close>

definition failing :: "fdi_context \<Rightarrow> nat \<Rightarrow> bool" where
  "failing c n = (needs_recovery (state c)
     \<or> state c = STATE_HEALTHY \<and> n = 0
     \<or> state c = STATE_SUSPECT \<and> n \<le> unat (fault_streak c))"

lemma evaluate_failing:
  assumes "failing c n" "ctx_inv c" "definitive d"
  shows "failing (evaluate_on c d) (Suc n)"
proof -
  consider (out) "needs_recovery (state c)" | (h) "state c = STATE_HEALTHY" "n = 0"
    | (s) "state c = STATE_SUSPECT" "n \<le> unat (fault_streak c)"
    using assms(1) by (auto simp: failing_def)
  then show ?thesis
  proof cases
    case out
    then show ?thesis by (simp add: failing_def evaluate_on_owned)
  next
    case h
    then have "state (update_ctx c d) = STATE_SUSPECT" "fault_streak (update_ctx c d) = 1"
      using step_healthy_fault [of c d] assms(3) by (auto simp: definitive_def)
    then show ?thesis using h by (simp add: failing_def c_ops Let_def)
  next
    case s
    have "unat (fault_streak c) < 255"
      using assms(2) s(1) u8_less_imp_small [of "fault_streak c"] by (auto simp: ctx_inv_def)
    note st = step_suspect_definitive [OF s(1) assms(3) this]
    then show ?thesis
      using s by (auto simp: failing_def c_ops
          needs_recovery_def Let_def)
  qed
qed

lemma recover_failing:
  assumes "recover_on up c v d now = (c', v', evs)" "failing c n" "definitive d"
  shows "failing c' n"
  using assms(1)
proof (cases rule: recover_on_cases)
  case probe
  then show ?thesis by (simp add: failing_def start_probe_ctx_def needs_recovery_def)
next
  case evaluate
  then show ?thesis using assms(3) by (auto simp: failing_def probe_ctx_def needs_recovery_def definitive_def)
qed (use assms(2) in simp_all)

lemma life_failing:
  "failing c 0 \<Longrightarrow> life_inv (c, v) \<Longrightarrow> \<forall>e\<in>set es. definitive (verdict e)
   \<Longrightarrow> failing (fst (life_run es (c, v))) (length (filter evaluates es))"
proof (induction es rule: rev_induct)
  case (snoc e es)
  obtain c1 v1 where l: "life_run es (c, v) = (c1, v1)" by fastforce
  have inv: "ctx_inv c1" using life.run_inv [OF snoc.prems(2), of es] l by (simp add: life_run_def life_inv_def)
  have f: "failing c1 (length (filter evaluates es))" using snoc l by simp
  show ?case
  proof (cases e)
    case (Evaluated d now)
    then show ?thesis using evaluate_failing [OF f inv] snoc.prems(3) l by simp
  next
    case (Overtaken d now)
    then show ?thesis using f l by (simp add: failing_def)
  next
    case (Recovered up d now)
    obtain c' v' evs where r: "recover_on up c1 v1 d now = (c', v', evs)"
      using prod_cases3 by blast
    then show ?thesis using recover_failing [OF r f] snoc.prems(3) l Recovered by simp
  qed
qed simp

lemma failing_excluded:
  assumes "failing c n" "ctx_inv c" "max 2 (confirm_limit c) \<le> n"
  shows "needs_recovery (state c)"
proof (rule ccontr)
  assume "\<not> ?thesis"
  then have s: "state c = STATE_SUSPECT" "n \<le> unat (fault_streak c)" using assms(1,3) by (auto simp: failing_def)
  then have "fault_streak c = 1 \<or> fault_streak c < fault_confirm_limit (cfg c)" using assms(2) by (simp add: ctx_inv_def)
  then show False using s(2) assms(3) by (auto simp: confirm_limit_def word_less_nat_alt)
qed

section \<open>Properties\<close>

text \<open>
  C6. A sensor whose fault persists is lost for good. If every event of a sensor finds a definitive
  fault (delayed, stuck or noisy, in any mixture), then after max(2, fault_confirm_limit) evaluations
  it is out of service, and no interleaving of further evaluations and recovery messages brings it
  back while the fault lasts. An evaluation that the recovery thread overtakes does not count.
\<close>

theorem persistent_fault_excludes:
  assumes "life_inv (c, v)" "state c \<noteq> STATE_FAULTED"
    and "\<forall>e\<in>set es. definitive (verdict e)"
    and "max 2 (confirm_limit c) \<le> length (filter evaluates es)"
  shows "needs_recovery (state (fst (life_run es (c, v))))"
proof -
  have "failing c 0" using assms(2) by (cases "state c") (auto simp: failing_def needs_recovery_def)
  then have f: "failing (fst (life_run es (c, v))) (length (filter evaluates es))"
    using life_failing assms(1,3) by blast
  have "ctx_inv (fst (life_run es (c, v)))"
    using life.run_inv [OF assms(1), of es] by (simp add: life_run_def life_inv_def)
  moreover have "confirm_limit (fst (life_run es (c, v))) = confirm_limit c"
    using life_run_cfg [of es "(c, v)"] by (simp add: confirm_limit_def)
  ultimately show ?thesis using failing_excluded [OF f] assms(4) by simp
qed

text \<open>A ranger that stopped answering at 1 ms, as the checks find it at 700 ms.\<close>

definition good_buf :: "sensor_buffer option" where
  "good_buf = Some (ranged SENSOR_US1 1000 80)"

definition lost_verdict :: fault_type where
  "lost_verdict = fdi_detect (Some (ctx_in SENSOR_US1 STATE_HEALTHY)) good_buf None 700000"

definition lost_events :: "life_event list" where
  "lost_events = concat (replicate 5 [Evaluated lost_verdict 700000, Recovered False lost_verdict 700000])"

lemma lost_delayed: "lost_verdict = FAULT_DELAYED"
  by code_simp

theorem persistent_fault_excludes_witness:
  "needs_recovery (state (fst (life_run lost_events fresh_life)))"
  using persistent_fault_excludes [of "ctx_in SENSOR_US1 STATE_HEALTHY" zero_sup lost_events] fresh_life_simps(1)
  by (simp add: fresh_life_def lost_events_def lost_delayed definitive_def numeral_eq_Suc)

end
