(* ===== verification/Timeline.thy ===== *)
theory Timeline
  imports Sensor_Loss
begin

text \<open>
  The text of the fault timeline, \<open>/tmp/fault_timeline.log\<close> of \<open>src/main.c\<close>: what can be read
  back from a line.
\<close>

section \<open>What a line says\<close>

datatype log_entry =
    Changed sensor_state sensor_state fault_type
  | Timed_out int sensor_state
  | Abandoned int sensor_state

definition entry_of :: "sensor_state list \<Rightarrow> fault_event \<Rightarrow> log_entry" where
  "entry_of tbl ev =
     (if synthetic_reason ev = 1 then Timed_out (probe_attempts ev) (ev_state ev)
      else if synthetic_reason ev = 2 then Abandoned (probe_attempts ev) (ev_state ev)
      else Changed (tbl ! sensor_idx (ev_id ev)) (ev_state ev) (ev_fault ev))"

fun entry_text :: "log_entry \<Rightarrow> string" where
  "entry_text (Changed s t f) =
     state_name s @ '' -> '' @ state_name t @ '' (fault='' @ fault_name f @ '')''"
| "entry_text (Timed_out n s) = ''RECOVERY TIMEOUT (attempt '' @ show_int n @ ''/5) -> '' @ state_name s"
| "entry_text (Abandoned n s) =
     ''RECOVERY ABANDONED PERMANENTLY after '' @ show_int n @ '' attempts -> '' @ state_name s"

lemma log_line_entry:
  "log_line tbl ev = ''['' @ digits (unat (ev_timestamp ev)) @ '' us] '' @ sensor_name (ev_id ev) @ '': '' @
     entry_text (entry_of tbl ev)"
proof -
  have "show_int RECOVERY_MAX_ATTEMPTS = ''5''" by code_simp
  then show ?thesis by (simp add: log_line_def entry_of_def)
qed

section \<open>Reading it back\<close>

text \<open>A word ends at the first occurrence of its delimiter.\<close>

lemma word_split:
  assumes "a @ d # r = b @ d # s" "d \<notin> set a" "d \<notin> set b"
  shows "a = b \<and> r = s"
proof -
  have "takeWhile (\<lambda>c. c \<noteq> d) (a @ d # r) = a" "takeWhile (\<lambda>c. c \<noteq> d) (b @ d # s) = b"
    using assms(2,3) by (auto simp: takeWhile_append)
  then show ?thesis using assms(1) by (metis append_same_eq append.assoc same_append_eq list.inject)
qed

lemma name_chars:
  "CHR '':'' \<notin> set (sensor_name i)" "CHR '' '' \<notin> set (state_name s)" "CHR '')'' \<notin> set (fault_name f)"
proof -
  show "CHR '':'' \<notin> set (sensor_name i)" by (cases i) simp_all
  show "CHR '' '' \<notin> set (state_name s)" by (cases s) simp_all
  show "CHR '')'' \<notin> set (fault_name f)" by (cases f) simp_all
qed

lemma sensor_name_inject: "(sensor_name i = sensor_name j) = (i = j)"
  by (cases i; cases j; simp)

lemma state_name_inject: "(state_name s = state_name t) = (s = t)"
  by (cases s; cases t; simp)

lemma fault_name_inject: "(fault_name f = fault_name g) = (f = g)"
  by (cases f; cases g; simp)

lemma digits_hd: "is_digit (hd (digits n))"
  using digits_all [of n] by (cases "digits n") auto

lemma digits_no_sign: "digits k @ u \<noteq> CHR ''-'' # t"
  using digits_hd [of k] digit_not_sign [of "hd (digits k)"] by (cases "digits k") auto

lemma show_int_cases: "show_int i = (if i < 0 then [CHR ''-''] else []) @ digits (nat \<bar>i\<bar>)"
  by (simp add: show_int_def)

lemma show_int_split:
  assumes "show_int m @ r = show_int n @ s" "r \<noteq> [] \<and> \<not> is_digit (hd r)" "s \<noteq> [] \<and> \<not> is_digit (hd s)"
  shows "m = n \<and> r = s"
proof -
  have sign: "(m < 0) = (n < 0)"
    using assms(1) digits_no_sign [of "nat \<bar>m\<bar>" r] digits_no_sign [of "nat \<bar>n\<bar>" s] digits_no_sign [symmetric]
    unfolding show_int_cases by (cases "m < 0"; cases "n < 0") (simp_all, metis+)
  then have "digits (nat \<bar>m\<bar>) @ r = digits (nat \<bar>n\<bar>) @ s"
    using assms(1) unfolding show_int_cases by (simp split: if_splits)
  then have "nat \<bar>m\<bar> = nat \<bar>n\<bar> \<and> r = s" using digits_split assms(2,3) by blast
  then show ?thesis using sign by (auto simp: nat_eq_iff2 abs_if split: if_splits)
qed

lemma entry_kinds:
  "entry_text (Changed s t f) \<noteq> entry_text (Timed_out n u)"
  "entry_text (Changed s t f) \<noteq> entry_text (Abandoned n u)"
  "entry_text (Timed_out n u) \<noteq> entry_text (Abandoned m v)"
proof -
  show "entry_text (Changed s t f) \<noteq> entry_text (Timed_out n u)" by (cases s) simp_all
  show "entry_text (Changed s t f) \<noteq> entry_text (Abandoned n u)" by (cases s) simp_all
  show "entry_text (Timed_out n u) \<noteq> entry_text (Abandoned m v)" by simp
qed

lemma timed_out_text: "entry_text (Timed_out n s) = entry_text (Timed_out n' s') \<Longrightarrow> n = n' \<and> s = s'"
  using show_int_split [of n "''/5) -> '' @ state_name s" n' "''/5) -> '' @ state_name s'"]
  by (simp add: is_digit_def state_name_inject)

lemma abandoned_text: "entry_text (Abandoned n s) = entry_text (Abandoned n' s') \<Longrightarrow> n = n' \<and> s = s'"
  using show_int_split [of n "'' attempts -> '' @ state_name s" n' "'' attempts -> '' @ state_name s'"]
  by (simp add: is_digit_def state_name_inject)

lemma changed_text:
  assumes "entry_text (Changed s t f) = entry_text (Changed s' t' f')"
  shows "s = s' \<and> t = t' \<and> f = f'"
proof -
  have 1: "state_name s = state_name s' \<and> ''-> '' @ state_name t @ '' (fault='' @ fault_name f @ '')''
      = ''-> '' @ state_name t' @ '' (fault='' @ fault_name f' @ '')''"
    using assms by (intro word_split [where d = "CHR '' ''"]) (simp_all add: name_chars)
  then have 2: "state_name t = state_name t' \<and> ''(fault='' @ fault_name f @ '')'' = ''(fault='' @ fault_name f' @ '')''"
    by (intro word_split [where d = "CHR '' ''"]) (simp_all add: name_chars)
  then show ?thesis using 1 by (simp add: state_name_inject fault_name_inject)
qed

lemma entry_text_inject: "(entry_text x = entry_text y) = (x = y)"
proof
  assume "entry_text x = entry_text y"
  then show "x = y"
    using changed_text timed_out_text abandoned_text entry_kinds entry_kinds [symmetric]
    by (cases x; cases y; metis)
qed simp

section \<open>Properties\<close>

text \<open>
  C40. The timeline can be read back. Two lines of the log are equal exactly when they report the same
  time, the same sensor and the same entry: the change of state with its fault, or the timeout or the
  abandonment with its number of attempts and the state.
\<close>

theorem timeline_readable:
  "(log_line tbl ev = log_line tbl' ev')
   = (ev_timestamp ev = ev_timestamp ev' \<and> ev_id ev = ev_id ev' \<and> entry_of tbl ev = entry_of tbl' ev')"
proof
  assume "log_line tbl ev = log_line tbl' ev'"
  then have 1: "unat (ev_timestamp ev) = unat (ev_timestamp ev')
      \<and> '' us] '' @ sensor_name (ev_id ev) @ '': '' @ entry_text (entry_of tbl ev)
        = '' us] '' @ sensor_name (ev_id ev') @ '': '' @ entry_text (entry_of tbl' ev')"
    unfolding log_line_entry by (intro digits_split) (simp_all add: is_digit_def)
  then have 2: "sensor_name (ev_id ev) = sensor_name (ev_id ev')
      \<and> '' '' @ entry_text (entry_of tbl ev) = '' '' @ entry_text (entry_of tbl' ev')"
    by (intro word_split [where d = "CHR '':''"]) (simp_all add: name_chars)
  then show "ev_timestamp ev = ev_timestamp ev' \<and> ev_id ev = ev_id ev' \<and> entry_of tbl ev = entry_of tbl' ev'"
    using 1 by (simp add: entry_text_inject sensor_name_inject word_unat_eq_iff)
qed (simp add: log_line_entry)

end
