(* ===== verification/Detector_Properties.thy ===== *)
theory Detector_Properties
  imports Scenarios Fault_Checks
begin

text \<open>
  Properties of \<open>src/fault_detector.c\<close>: what each check finds in a sensor's history, and what a
  run of detections does to the sensor.
\<close>

section \<open>Scenarios\<close>

text \<open>A full history of ten distances.\<close>

definition full_log :: "int list \<Rightarrow> sensor_buffer" where
  "full_log ds = (empty_log SENSOR_US1)
     \<lparr>samples := map (\<lambda>d. zero_sample\<lparr>timestamp_us := 1000, value_count := 1,
          value := [f32_of_int d, f32_0, f32_0, f32_0, f32_0, f32_0]\<rparr>) ds, sample_count := 10\<rparr>"

definition steady_log :: sensor_buffer where
  "steady_log = full_log (replicate 10 80)"

definition jumpy_log :: sensor_buffer where
  "jumpy_log = full_log [80, 80, 80, 80, 80, 150, 80, 80, 80, 80]"

lemma full_log_ring:
  assumes "length ds = 10"
  shows "ring_of (full_log ds) = samples (full_log ds)"
proof -
  have l: "length (samples (full_log ds)) = 10" using assms by (simp add: full_log_def)
  have "ring_slice (samples (full_log ds)) 0 10 = samples (full_log ds)"
    by (rule nth_equalityI) (simp_all add: ring_slice_nth l)
  then show ?thesis by (simp add: ring_of_def) (simp add: full_log_def empty_log_def zero_buffer_def)
qed

lemma full_log_fields:
  "samples (full_log ds) = map (\<lambda>d. zero_sample\<lparr>timestamp_us := 1000, value_count := 1,
     value := [f32_of_int d, f32_0, f32_0, f32_0, f32_0, f32_0]\<rparr>) ds"
  "write_index (full_log ds) = 0" "sample_count (full_log ds) = 10" "buf_sensor_id (full_log ds) = SENSOR_US1"
  by (simp_all add: full_log_def empty_log_def zero_buffer_def)

lemma full_log_window:
  assumes "length ds = 10" "\<forall>d\<in>set ds. finite_f32 (f32_of_int d)"
  shows "window_ok (full_log ds)" "components (full_log ds) = 1"
proof -
  have 0: "map f ds ! 0 = f (ds ! 0)" for f :: "int \<Rightarrow> sensor_sample" using assms(1) by simp
  show "components (full_log ds) = 1"
    by (simp add: components_def full_log_ring [OF assms(1)] full_log_fields 0)
  show "window_ok (full_log ds)"
    using assms
    by (simp add: window_ok_def buffer_inv_def full_log_ring full_log_fields list_all_iff sample_ok_def
        finite_sample_def zero_sample_def del: f32_ok.simps)
qed

lemma finite_distances: "finite_f32 (f32_of_int 80)" "finite_f32 (f32_of_int 150)"
  by code_simp+

lemma window_ok_logs: "window_ok steady_log" "window_ok jumpy_log" "components steady_log = 1" "components jumpy_log = 1"
  using full_log_window [of "replicate 10 80"] full_log_window [of "[80, 80, 80, 80, 80, 150, 80, 80, 80, 80]"]
    finite_distances by (simp_all add: steady_log_def jumpy_log_def)

lemma log_values:
  "s \<in> set (ring_of steady_log) \<Longrightarrow> value s ! 0 = f32_of_int 80"
  "value (ring_of jumpy_log ! 4) ! 0 = f32_of_int 80" "value (ring_of jumpy_log ! 5) ! 0 = f32_of_int 150"
  "length (ring_of jumpy_log) = 10"
  by (auto simp: steady_log_def jumpy_log_def full_log_ring full_log_fields)

abbreviation us_ctx :: fdi_context where
  "us_ctx \<equiv> ctx_in SENSOR_US1 STATE_HEALTHY"

section \<open>Isolation\<close>

text \<open>
  C17. Isolation takes exactly the configured number of faults. From HEALTHY, with a limit of at
  least two, a run of definitive faults (delayed, stuck or noisy) leaves the sensor SUSPECT with the
  run's length as its streak as long as the run is shorter than the limit, and FAULTED from then on.
\<close>

theorem isolation_exact:
  assumes "state c = STATE_HEALTHY" "2 \<le> confirm_limit c" "list_all definitive ds" "ds \<noteq> []"
  shows "if length ds < confirm_limit c
    then state (updates c ds) = STATE_SUSPECT \<and> unat (fault_streak (updates c ds)) = length ds
    else state (updates c ds) = STATE_FAULTED"
  by (rule updates_definitive_counted [OF assms])

theorem isolation_exact_witness:
  "state (updates us_ctx [FAULT_STUCK, FAULT_NOISY]) = STATE_SUSPECT
   \<and> state (updates us_ctx [FAULT_STUCK, FAULT_NOISY, FAULT_DELAYED]) = STATE_FAULTED"
  using isolation_exact [of us_ctx "[FAULT_STUCK, FAULT_NOISY]"]
    isolation_exact [of us_ctx "[FAULT_STUCK, FAULT_NOISY, FAULT_DELAYED]"]
  by (simp add: definitive_def)

text \<open>
  No sensor is condemned on less. Whatever the detections were, a sensor that started HEALTHY
  with a zero streak and is now FAULTED has shown at least two faults, and at least as many as the
  limit.
\<close>

lemma isolation_needs_faults:
  assumes "state c = STATE_HEALTHY" "fault_streak c = 0" "state (updates c ds) = STATE_FAULTED"
  shows "2 \<le> fault_count ds \<and> confirm_limit c \<le> fault_count ds"
  using updates_count_bound [OF assms(1,2), of ds] assms(3) by simp

text \<open>
  A disagreement alone never condemns a sensor. Detections that are only clean or CONTRADICTORY
  keep a healthy or suspect sensor healthy or suspect, however many they are.
\<close>

lemma contradiction_never_condemns:
  assumes "state c \<in> {STATE_HEALTHY, STATE_SUSPECT}" "set ds \<subseteq> {FAULT_NONE, FAULT_CONTRADICTORY}"
  shows "state (updates c ds) \<in> {STATE_HEALTHY, STATE_SUSPECT}"
  by (rule updates_contradictory [OF assms])

text \<open>
  The faults need not be consecutive. A suspect sensor whose definitive faults are separated by
  clean detections, each gap shorter than the recovery limit, is FAULTED by the fault that completes
  the limit: clean detections do not reset the count.
\<close>

lemma spaced_faults_condemn:
  assumes "definitive d" "state c = STATE_SUSPECT" "recovery_streak c = 0"
    and "\<forall>m\<in>set gaps. m < recover_limit c"
    and "unat (fault_streak c) + length gaps = confirm_limit c" "gaps \<noteq> []"
  shows "state (updates c (spaced_faults d gaps)) = STATE_FAULTED"
  by (rule updates_spaced [OF assms])

lemma spaced_faults_example:
  "state (updates (update_ctx us_ctx FAULT_NOISY)
     [FAULT_NONE, FAULT_NONE, FAULT_NOISY, FAULT_NONE, FAULT_NONE, FAULT_NOISY]) = STATE_FAULTED"
  using spaced_faults_condemn [of FAULT_NOISY "update_ctx us_ctx FAULT_NOISY" "[2, 2]"]
    step_healthy_fault [of us_ctx FAULT_NOISY]
  by (simp add: definitive_def spaced_faults_def numeral_2_eq_2)



section \<open>Checks\<close>

text \<open>
  C23. The delay check. A well-formed buffer is delayed exactly when it is empty or its newest sample
  is older than the configured timeout; a sample from the future is never delayed, although the
  difference of the unsigned times would wrap around.
\<close>

theorem delayed_exact:
  assumes "buffer_inv b"
  shows "check_delayed c (Some b) now
    = (case latest_entry b of None \<Rightarrow> True | Some (t, vs) \<Rightarrow> unat t + timeout c < unat now)"
  by (rule check_delayed_iff [OF assms])

theorem delayed_exact_witness:
  "check_delayed us_ctx (Some (ranged SENSOR_US1 1000 80)) 501001
   \<and> \<not> check_delayed us_ctx (Some (ranged SENSOR_US1 1000 80)) 501000
   \<and> \<not> check_delayed us_ctx (Some (ranged SENSOR_US1 1000 80)) 5"
  using delayed_exact [of "ranged SENSOR_US1 1000 80"] ranged_holds [of 80 SENSOR_US1 1000]
  by (simp add: ranged_latest holds_only_def timeout_def ctx_in_def init_context_def test_cfg_def)

text \<open>
  C21. The stuck check. On a full window of finite samples the loop with its running minimum and
  maximum finds a sensor stuck exactly when, in every component, no two samples of the window differ
  by more than the threshold.
\<close>

theorem stuck_exact:
  assumes "window_ok b"
  shows "check_stuck c (Some b)
    = (\<forall>k<components b. all_close (stuck_threshold (cfg c)) (ring_of b) k)"
  by (rule check_stuck_iff [OF assms])

lemma steady_close: "all_close (stuck_threshold (cfg us_ctx)) (ring_of steady_log) 0"
proof -
  have "\<not> f32_gt (f32_sub (f32_of_int 80) (f32_of_int 80)) (f32_lit 3 1)" by code_simp
  then show ?thesis
    by (auto simp: all_close_def log_values ctx_in_def init_context_def test_cfg_def)
qed

theorem stuck_exact_witness: "check_stuck us_ctx (Some steady_log)"
  using stuck_exact [OF window_ok_logs(1), of us_ctx] steady_close window_ok_logs(3) by simp


lemma jumpy_jump: "some_jump (noise_threshold (cfg us_ctx)) (ring_of jumpy_log) 0"
proof -
  have "f32_gt (jump (f32_of_int 150) (f32_of_int 80)) (f32_lit 30 1)" by code_simp
  then show ?thesis
    by (auto simp: some_jump_def log_values ctx_in_def init_context_def test_cfg_def intro!: exI [of _ 4])
qed


text \<open>
  A stuck sensor is not noisy. When the stuck threshold is at most the noise threshold, as in
  both configurations of the program, a full window cannot be both, so the order of the two checks
  does not decide the classification.
\<close>

lemma stuck_excludes_noisy:
  assumes "window_ok b" "f32_le (stuck_threshold (cfg c)) (noise_threshold (cfg c))"
    and "check_stuck c (Some b)"
  shows "\<not> check_noisy c (Some b)"
  by (rule stuck_not_noisy [OF assms])


end
