(* ===== verification/Imu_Thread.thy ===== *)
theory Imu_Thread
  imports Imu_Driver Text_Output
begin

text \<open>
  \<open>mpu6050_thread\<close> of \<open>src/imu_driver.c\<close>: the stand-alone loop that reads the two inertial
  sensors and prints them ten times a second. The loop has no end, so the model gives what it has
  printed after a number of turns; the lines of the start-up are not part of it. The two devices are
  locals of the thread, of any content before their initialisation.
\<close>

section \<open>The thread\<close>

text \<open>\<open>fd\<close> is what \<open>open\<close> returned; the return codes of the four calls are only reported.\<close>

definition thread_start ::
  "imu_env \<Rightarrow> int \<Rightarrow> mpu6050 \<Rightarrow> mpu6050 \<Rightarrow> imu_call list \<Rightarrow> (mpu6050 \<times> mpu6050 \<times> imu_call list) option" where
  "thread_start env fd primary backup tr =
     (if fd = -1 then None
      else let (rc, p, tr) = mpu6050_init env (Some primary) fd MPU6050_PRIMARY_ADDR 1 tr;
               (rc, b, tr) = mpu6050_init env (Some backup) fd MPU6050_BACKUP_ADDR 2 tr;
               (rc, p, tr) = mpu6050_calibrate env p tr;
               (rc, b, tr) = mpu6050_calibrate env b tr
           in (case (p, b) of (Some p, Some b) \<Rightarrow> Some (p, b, tr) | _ \<Rightarrow> None))"

definition imu_line :: "string \<Rightarrow> imu_sample \<Rightarrow> string" where
  "imu_line name s =
     ''['' @ name @ ''] Accel (g): '' @ show_float True 1 3 (ax s) @ '' '' @ show_float True 1 3 (ay s) @ '' '' @
     show_float True 1 3 (az s) @ '' | Gyro (deg/s): '' @ show_float True 6 1 (gx s) @ '' '' @
     show_float True 6 1 (gy s) @ '' '' @ show_float True 6 1 (gz s)"

text \<open>One turn of the loop: the lines printed, one for each sensor that could be read.\<close>

definition heartbeat :: "imu_env \<Rightarrow> mpu6050 \<Rightarrow> mpu6050 \<Rightarrow> imu_call list \<Rightarrow> string list \<times> imu_call list" where
  "heartbeat env primary backup tr =
     (let (s1, tr) = mpu6050_read env (Some primary) True tr;
          out1 = (case s1 of None \<Rightarrow> [] | Some v \<Rightarrow> [imu_line ''PRIMARY 0x68'' v]);
          (s2, tr) = mpu6050_read env (Some backup) True tr;
          out2 = (case s2 of None \<Rightarrow> [] | Some v \<Rightarrow> [imu_line ''BACKUP  0x69'' v])
      in (out1 @ out2, Usleep 100000 # tr))"

fun heartbeats ::
  "imu_env \<Rightarrow> mpu6050 \<Rightarrow> mpu6050 \<Rightarrow> nat \<Rightarrow> imu_call list \<Rightarrow> string list \<times> imu_call list" where
  "heartbeats env primary backup 0 tr = ([], tr)"
| "heartbeats env primary backup (Suc n) tr =
     (let (out, tr) = heartbeat env primary backup tr; (outs, tr) = heartbeats env primary backup n tr
      in (out @ outs, tr))"

definition mpu6050_thread ::
  "imu_env \<Rightarrow> int \<Rightarrow> mpu6050 \<Rightarrow> mpu6050 \<Rightarrow> nat \<Rightarrow> imu_call list \<Rightarrow> (string list \<times> imu_call list) option" where
  "mpu6050_thread env fd primary backup n tr =
     (case thread_start env fd primary backup tr of None \<Rightarrow> None
      | Some (p, b, tr) \<Rightarrow> Some (heartbeats env p b n tr))"

section \<open>Resources\<close>

lemma thread_start_balanced:
  assumes "thread_start env fd p0 b0 tr = Some (p, b, tr')"
  shows "live_blocks env tr' = live_blocks env tr"
proof -
  obtain rc1 p1 tr1 where 1: "mpu6050_init env (Some p0) fd MPU6050_PRIMARY_ADDR 1 tr = (rc1, p1, tr1)" by (metis prod_cases3)
  obtain rc2 b1 tr2 where 2: "mpu6050_init env (Some b0) fd MPU6050_BACKUP_ADDR 2 tr1 = (rc2, b1, tr2)" by (metis prod_cases3)
  obtain rc3 p2 tr3 where 3: "mpu6050_calibrate env p1 tr2 = (rc3, p2, tr3)" by (metis prod_cases3)
  obtain rc4 b2 tr4 where 4: "mpu6050_calibrate env b1 tr3 = (rc4, b2, tr4)" by (metis prod_cases3)
  have "tr' = tr4" using assms 1 2 3 4 by (auto simp: thread_start_def split: if_splits option.splits)
  then show ?thesis
    using mpu6050_init_balanced [of env "Some p0" fd MPU6050_PRIMARY_ADDR 1 tr]
      mpu6050_init_balanced [of env "Some b0" fd MPU6050_BACKUP_ADDR 2 tr1]
      mpu6050_calibrate_balanced [of env p1 tr2] mpu6050_calibrate_balanced [of env b1 tr3]
    by (simp add: 1 2 3 4)
qed

lemma heartbeat_balanced:
  assumes "heartbeat env p b tr = (out, tr')"
  shows "live_blocks env tr' = live_blocks env tr \<and> length out \<le> 2"
proof -
  obtain s1 tr1 where 1: "mpu6050_read env (Some p) True tr = (s1, tr1)" by fastforce
  obtain s2 tr2 where 2: "mpu6050_read env (Some b) True tr1 = (s2, tr2)" by fastforce
  show ?thesis
    using assms mpu6050_read_balanced [of env "Some p" True tr] mpu6050_read_balanced [of env "Some b" True tr1]
    by (auto simp: heartbeat_def 1 2 split: option.splits)
qed

lemma heartbeats_balanced:
  "heartbeats env p b n tr = (out, tr') \<Longrightarrow> live_blocks env tr' = live_blocks env tr \<and> length out \<le> 2 * n"
proof (induction n arbitrary: tr out)
  case (Suc n)
  obtain o1 tr1 where 1: "heartbeat env p b tr = (o1, tr1)" by fastforce
  obtain o2 where 2: "heartbeats env p b n tr1 = (o2, tr')" "out = o1 @ o2"
    using Suc.prems 1 by (auto split: prod.splits)
  then show ?case using Suc.IH [OF 2(1)] heartbeat_balanced [OF 1] by simp
qed simp

section \<open>A steady sensor\<close>

text \<open>The start of a line with 0, 0 and 1 g.\<close>

definition level_prefix :: "string \<Rightarrow> string" where
  "level_prefix name = ''['' @ name @ ''] Accel (g): +0.000 +0.000 +1.000 | Gyro (deg/s): ''"

lemma level_floats: "show_float True 1 3 f32_0 = ''+0.000''" "show_float True 1 3 (f32_lit 1 1) = ''+1.000''"
  by code_simp+

lemma level_line:
  assumes "ax v = f32_0" "ay v = f32_0" "az v = f32_lit 1 1"
  shows "\<exists>rest. imu_line name v = level_prefix name @ rest"
  unfolding imu_line_def level_prefix_def assms level_floats by simp

lemma steady_beat:
  assumes "steady_device env raw" "sums_after raw 50 s"
  shows "\<exists>v tr'. mpu6050_read env (Some (m\<lparr>calib := offsets_of_sums s\<rparr>)) True tr = (Some v, tr')
    \<and> ax v = f32_0 \<and> ay v = f32_0 \<and> az v = f32_lit 1 1"
proof -
  obtain tr' where "i2c_read_bytes env (imu_fd m) (imu_addr m) REG_ACCEL_XOUT_H 14 tr = (Some raw, tr')"
    using steady_read [OF assms(1)] by blast
  then show ?thesis using steady_apply [OF assms(2) refl] by (simp add: mpu6050_read_def)
qed

definition level_lines :: "string list \<Rightarrow> bool" where
  "level_lines out = (\<exists>r1 r2. out = [level_prefix ''PRIMARY 0x68'' @ r1, level_prefix ''BACKUP  0x69'' @ r2])"

lemma steady_heartbeat:
  assumes "steady_device env raw" "sums_after raw 50 s1" "sums_after raw 50 s2"
  shows "\<exists>out tr'. heartbeat env (m1\<lparr>calib := offsets_of_sums s1\<rparr>) (m2\<lparr>calib := offsets_of_sums s2\<rparr>) tr = (out, tr')
    \<and> level_lines out"
proof -
  obtain v1 tr1 where 1: "mpu6050_read env (Some (m1\<lparr>calib := offsets_of_sums s1\<rparr>)) True tr = (Some v1, tr1)"
      "ax v1 = f32_0 \<and> ay v1 = f32_0 \<and> az v1 = f32_lit 1 1"
    using steady_beat [OF assms(1,2)] by blast
  obtain v2 tr2 where 2: "mpu6050_read env (Some (m2\<lparr>calib := offsets_of_sums s2\<rparr>)) True tr1 = (Some v2, tr2)"
      "ax v2 = f32_0 \<and> ay v2 = f32_0 \<and> az v2 = f32_lit 1 1"
    using steady_beat [OF assms(1,3)] by blast
  have "level_lines [imu_line ''PRIMARY 0x68'' v1, imu_line ''BACKUP  0x69'' v2]"
    using level_line [of v1 "''PRIMARY 0x68''"] level_line [of v2 "''BACKUP  0x69''"] 1(2) 2(2)
    unfolding level_lines_def by blast
  then show ?thesis by (simp add: heartbeat_def 1(1) 2(1))
qed

lemma steady_heartbeats:
  assumes "steady_device env raw" "sums_after raw 50 s1" "sums_after raw 50 s2"
  shows "\<exists>outs tr'. heartbeats env (m1\<lparr>calib := offsets_of_sums s1\<rparr>) (m2\<lparr>calib := offsets_of_sums s2\<rparr>) n tr
      = (concat outs, tr') \<and> length outs = n \<and> list_all level_lines outs"
proof (induction n arbitrary: tr)
  case (Suc n)
  obtain o1 tr1 where 1: "heartbeat env (m1\<lparr>calib := offsets_of_sums s1\<rparr>) (m2\<lparr>calib := offsets_of_sums s2\<rparr>) tr = (o1, tr1)"
      "level_lines o1"
    using steady_heartbeat [OF assms] by blast
  obtain outs tr2 where 2: "heartbeats env (m1\<lparr>calib := offsets_of_sums s1\<rparr>) (m2\<lparr>calib := offsets_of_sums s2\<rparr>) n tr1
      = (concat outs, tr2)" "length outs = n" "list_all level_lines outs"
    using Suc.IH by blast
  show ?case by (rule exI [of _ "o1 # outs"]) (simp add: 1 2)
qed simp

lemma steady_start:
  assumes "steady_device env raw" "fd \<noteq> -1"
  shows "\<exists>m1 m2 s1 s2 tr'. thread_start env fd p0 b0 tr
      = Some (m1\<lparr>calib := offsets_of_sums s1\<rparr>, m2\<lparr>calib := offsets_of_sums s2\<rparr>, tr')
    \<and> sums_after raw 50 s1 \<and> sums_after raw 50 s2"
proof -
  let ?m1 = "\<lparr>imu_fd = fd, imu_addr = MPU6050_PRIMARY_ADDR, imu_sensor_id = 1, calib = zero_calib\<rparr>"
  let ?m2 = "\<lparr>imu_fd = fd, imu_addr = MPU6050_BACKUP_ADDR, imu_sensor_id = 2, calib = zero_calib\<rparr>"
  obtain rc1 tr1 where 1: "mpu6050_init env (Some p0) fd MPU6050_PRIMARY_ADDR 1 tr = (rc1, Some ?m1, tr1)"
    using mpu6050_init_device [of env p0 fd MPU6050_PRIMARY_ADDR 1 tr] by (metis prod.collapse)
  obtain rc2 tr2 where 2: "mpu6050_init env (Some b0) fd MPU6050_BACKUP_ADDR 2 tr1 = (rc2, Some ?m2, tr2)"
    using mpu6050_init_device [of env b0 fd MPU6050_BACKUP_ADDR 2 tr1] by (metis prod.collapse)
  obtain s1 tr3 where 3: "mpu6050_calibrate env (Some ?m1) tr2 = (0, Some (?m1\<lparr>calib := offsets_of_sums s1\<rparr>), tr3)"
      "sums_after raw 50 s1"
    using steady_calibrate [OF assms(1)] by blast
  obtain s2 tr4 where 4: "mpu6050_calibrate env (Some ?m2) tr3 = (0, Some (?m2\<lparr>calib := offsets_of_sums s2\<rparr>), tr4)"
      "sums_after raw 50 s2"
    using steady_calibrate [OF assms(1)] by blast
  have "thread_start env fd p0 b0 tr
      = Some (?m1\<lparr>calib := offsets_of_sums s1\<rparr>, ?m2\<lparr>calib := offsets_of_sums s2\<rparr>, tr4)"
    using assms(2) 1 2 3(1) 4(1) by (simp add: thread_start_def)
  then show ?thesis using 3(2) 4(2) by blast
qed

end
