(* ===== verification/Driver_Properties.thy ===== *)
theory Driver_Properties
  imports Scenarios Imu_Thread
begin

text \<open>
  Properties of the sensor buffer and the two drivers: \<open>src/sensor_buffer.c\<close>,
  \<open>src/ultrasonic_driver.c\<close> and \<open>src/imu_driver.c\<close>.
\<close>

section \<open>The buffer\<close>

text \<open>The samples a reader is given, as readings.\<close>

definition view :: "sensor_sample list option \<Rightarrow> reading list option" where
  "view r = map_option (map reading_of) r"

text \<open>
  C16. The ring buffer refines a bounded list. After any sequence of accepted writes to a well-formed
  buffer, the history is the last ten of the old history followed by what was written; the reader of
  n samples returns the last n of it, oldest first, the reader of the newest sample returns its last
  element, and the count is its length, wherever the write index stands.
\<close>

theorem buffer_refines_log:
  assumes "buffer_inv b" "list_all (\<lambda>(ts, vs, vc). write_args_ok vs vc) ws"
  shows "let b' = fold write_into ws b; log = keep_last 10 (map time_values (history b) @
           map (\<lambda>(ts, vs, vc). (ts, take (unat vc) vs)) ws)
    in buffer_inv b' \<and> map time_values (history b') = log
      \<and> map_option (map time_values) (view (sensor_buffer_read_history (Some b') True mx True))
        = Some (keep_last (unat mx) log)
      \<and> latest_entry b' = (if log = [] then None else Some (last log))
      \<and> unat (sensor_buffer_count (Some b')) = length log"
proof -
  let ?b = "fold write_into ws b"
  have inv: "buffer_inv ?b" by (rule buf.inv_puts [OF assms])
  have h: "map time_values (history ?b) = keep_last 10 (map time_values (history b) @
      map (\<lambda>(ts, vs, vc). (ts, take (unat vc) vs)) ws)"
    by (rule buf.contents_puts [OF assms])
  have "view (sensor_buffer_read_history (Some ?b) True mx True) = Some (keep_last (unat mx) (history ?b))"
    using read_history_eq [OF inv] by (simp add: view_def history_def map_keep_last)
  moreover have "unat (sensor_buffer_count (Some ?b)) = length (map time_values (history ?b))"
    using buffer_count_eq [of ?b] by simp
  ultimately show ?thesis
    using inv buf.newest_contents [OF inv] unfolding Let_def h [symmetric] by (simp add: map_keep_last)
qed

definition countdown :: "nat \<Rightarrow> (u64 \<times> f32 list \<times> u8) list" where
  "countdown n = map (\<lambda>i. (of_nat i, [f32_0], 1)) [0..<n]"

theorem buffer_refines_log_witness:
  "unat (sensor_buffer_count (Some (fold write_into (countdown 23) (empty_log SENSOR_US1)))) = 10
   \<and> latest_entry (fold write_into (countdown 23) (empty_log SENSOR_US1)) = Some (22, [f32_0])"
proof -
  have ok: "list_all (\<lambda>(ts, vs, vc). write_args_ok vs vc) (countdown 23)"
    by (simp add: countdown_def list_all_iff write_args_ok_def f32_max_units_def)
  have l: "map (\<lambda>(ts, vs, vc). (ts, take (unat vc) vs)) (countdown 23) = map (\<lambda>i. (of_nat i, [f32_0])) [0..<23]"
    by (simp add: countdown_def)
  have "last (keep_last 10 (map (\<lambda>i. (of_nat i :: u64, [f32_0])) [0..<23])) = (22, [f32_0])"
    "keep_last 10 (map (\<lambda>i. (of_nat i :: u64, [f32_0])) [0..<23]) \<noteq> []"
    by (simp_all add: keep_last_def upt_rec)
  then show ?thesis
    using buffer_refines_log [OF empty_log_inv(1) ok, of SENSOR_US1 0] unfolding l by (simp add: Let_def)
qed

lemma sequence_inv_writes:
  "buffer_inv b \<Longrightarrow> sequence_inv b \<Longrightarrow> list_all (\<lambda>(ts, vs, vc). write_args_ok vs vc) ws
   \<Longrightarrow> sequence_inv (fold write_into ws b)"
proof (induction ws arbitrary: b)
  case (Cons w ws)
  obtain ts vs vc where w: "w = (ts, vs, vc)" by (cases w)
  then have ok: "write_args_ok vs vc" using Cons.prems(3) by simp
  have "sequence_inv (write_into w b)"
    using ok Cons.prems(1,2) unfolding w write_into_store [OF ok]
    by (intro sequence_inv_store) (auto simp: write_args_ok_def)
  moreover have "buffer_inv (write_into w b)"
    using store_sample_inv [OF Cons.prems(1) ok] by (simp add: w write_into_store ok)
  ultimately show ?case using Cons.IH Cons.prems(3) by simp
qed simp

text \<open>
  Sequence numbers reveal every loss. From an empty buffer, after any sequence of accepted
  writes, the sequence numbers in the buffer, youngest first, count down from the number of the
  last write without a gap, with the wrap-around of \<open>uint32_t\<close>.
\<close>

lemma sequence_numbers:
  assumes "list_all (\<lambda>(ts, vs, vc). write_args_ok vs vc) ws"
  shows "counts_down (next_sequence (fold write_into ws (empty_log i)))
    (rev (map rd_seq (history (fold write_into ws (empty_log i)))))"
  using sequence_inv_writes [OF empty_log_inv(1) _ assms, of i] by (simp add: sequence_inv_def)

section \<open>The ultrasonic driver\<close>

text \<open>
  An echo of 1 ms: every call succeeds, and the clock advances 1 ms with each reading.
\<close>

fun readings :: "us_call list \<Rightarrow> int" where
  "readings [] = 0"
| "readings (Clock_gettime # tr) = readings tr + 1"
| "readings (c # tr) = readings tr"

definition echo_env :: us_env where
  "echo_env = \<lparr>env_rc = \<lambda>tr c. case tr of Timer_timeout ns # _ \<Rightarrow> (if ns = 0 then -1 else 0) | _ \<Rightarrow> 0,
     env_pulse = \<lambda>tr. \<lparr>pulse_code = 1, pulse_value = 1\<rparr>,
     env_clock = \<lambda>tr. \<lparr>tv_sec = 7, tv_nsec = readings tr * 1000000\<rparr>, pulse_code_minavail = 1\<rparr>"

definition echo_sensor :: ultrasonic where
  "echo_sensor = \<lparr>trig_pin = 23, echo_pin = 24, us_sensor_id = 0, chid = 5, coid = 6\<rparr>"

text \<open>
  C24. Which echoes are distances. When the trigger, both edges and both clock readings succeed, the
  read reports a distance exactly for pulse widths from 1 ns to 29154521 ns: the binary32 conversion
  puts the 500 cm limit there, and every other width is an error with distance 0.
\<close>

theorem echo_range:
  assumes "send_trigger env s tr = (0, tr1)" "receive_echo_event env s tr1 = (0, tr2)"
    and "env_rc env tr2 Clock_gettime \<noteq> -1"
    and "receive_echo_event env s (Clock_gettime # tr2) = (0, tr4)"
    and "env_rc env tr4 Clock_gettime \<noteq> -1"
    and "t = elapsed_time_ns (env_clock env tr2) (env_clock env tr4)"
  shows "measure_distance env s tr
    = (if 1 \<le> t \<and> t \<le> 29154521 then (0, Some (distance_of_ns t), Clock_gettime # tr4)
       else (-1, Some f32_0, Clock_gettime # tr4))"
  by (rule measure_distance_echo [OF assms])

lemmas echo_defs = echo_env_def echo_sensor_def Let_def GPIO_LOW_def GPIO_HIGH_def GPIO_SUCCESS_def
  ECHO_TIMEOUT_MS_def EVENT_ECHO_def

lemma echo_calls:
  "send_trigger echo_env echo_sensor [] = (0, [Gpio (Output 23 4), Nanosleep 0 10000, Gpio (Output 23 8)])"
  "receive_echo_event echo_env echo_sensor (Gpio (Output p l) # tr)
   = (0, Msg_receive_pulse 5 # Timer_timeout 30000000 # Gpio (Output p l) # tr)"
  "receive_echo_event echo_env echo_sensor (Clock_gettime # tr)
   = (0, Msg_receive_pulse 5 # Timer_timeout 30000000 # Clock_gettime # tr)"
  by (simp_all add: send_trigger_def receive_echo_event_def echo_defs)

theorem echo_range_witness:
  "fst (snd (measure_distance echo_env echo_sensor [])) = Some (distance_of_ns 1000000)"
  using echo_range [OF echo_calls(1) echo_calls(2) _ echo_calls(3) _ refl]
  by (simp add: echo_env_def elapsed_time_ns_def)

text \<open>
  C25. A read is bounded and its result is a distance or an error. Whatever the hardware answers, a
  read that returns has waited in no receive without a kernel timeout of at most 30 ms armed just
  before it, and gives either 0 with a distance in (0, 500] cm or -1 with the distance 0.
\<close>

theorem ultrasonic_read_bounded:
  assumes "ultrasonic_read env (Some s) True tr = Some (rc, d, tr')" "receives_bounded env tr"
  shows "receives_bounded env tr'
    \<and> (rc = 0 \<and> (\<exists>x. d = Some x \<and> f32_lt f32_0 x \<and> f32_le x MAX_DISTANCE_CM) \<or> rc = -1 \<and> d = Some f32_0)"
proof -
  obtain tr1 where dr: "drain_events env (chid s) tr = Some tr1" "measure_distance env s tr1 = (rc, d, tr')"
    using assms(1) by (auto simp: ultrasonic_read_def)
  have "rc = 0 \<or> rc = -1" using measure_distance_rc [of env s tr1] dr(2) by auto
  then show ?thesis
    using measure_distance_bounded [OF dr(2) drain_events_bounded [OF dr(1) assms(2)]]
      measure_distance_success [of env s tr1 d tr'] measure_distance_failure [OF dr(2)] dr(2) by auto
qed

lemma echo_read:
  "\<exists>rc d tr'. ultrasonic_read echo_env (Some echo_sensor) True [] = Some (rc, d, tr')"
proof -
  have "drain_events echo_env 5 [] = Some [Msg_receive_pulse 5, Timer_timeout 0]"
    by (subst drain_events.simps) (simp add: echo_env_def Let_def)
  then show ?thesis
    by (simp add: ultrasonic_read_def echo_sensor_def) (metis prod_cases3)
qed

theorem ultrasonic_read_bounded_witness:
  "\<exists>rc d tr'. ultrasonic_read echo_env (Some echo_sensor) True [] = Some (rc, d, tr') \<and> receives_bounded echo_env tr'"
  using echo_read ultrasonic_read_bounded [of echo_env echo_sensor "[]"] by (meson receives_bounded.simps(1))

text \<open>
  C26. Initialisation leaks nothing. If it fails, at any of its six calls, no channel and no connection
  is left open that was not open before and the handles are -1; if it succeeds, the GPIO server has
  granted every request, exactly one of each is open, and the shutdown closes both.
\<close>

theorem ultrasonic_resources:
  assumes "ultrasonic_init env (Some s0) trig echo sid tr = (rc, Some s, tr')"
  shows "if rc = 0
    then (granted env tr \<longrightarrow> granted env tr')
      \<and> open_channels env tr' = chid s # open_channels env tr
      \<and> open_connections env tr' = coid s # open_connections env tr
      \<and> open_channels env (snd (ultrasonic_shutdown (Some s) tr')) = open_channels env tr
      \<and> open_connections env (snd (ultrasonic_shutdown (Some s) tr')) = open_connections env tr
    else rc = -1 \<and> chid s = -1 \<and> coid s = -1
      \<and> open_channels env tr' = open_channels env tr \<and> open_connections env tr' = open_connections env tr"
proof -
  note r = ultrasonic_init_resources [OF assms]
  show ?thesis
  proof (cases "rc = 0")
    case True
    then have i: "chid s \<noteq> -1" "coid s \<noteq> -1" "open_channels env tr' = chid s # open_channels env tr"
        "open_connections env tr' = coid s # open_connections env tr" using r by auto
    obtain s' tr'' where sd: "ultrasonic_shutdown (Some s) tr' = (s', tr'')" by fastforce
    show ?thesis using ultrasonic_shutdown_resources [OF i(3,4,1,2) sd] True i sd ultrasonic_init_granted assms by auto
  qed (use r in simp)
qed

text \<open>Every call succeeds but the last, which drives the trigger low.\<close>

definition stiff_env :: us_env where
  "stiff_env = \<lparr>env_rc = \<lambda>tr c. case c of Channel_create \<Rightarrow> 5 | Connect_attach _ \<Rightarrow> 6
       | Gpio (Output _ _) \<Rightarrow> 1 | _ \<Rightarrow> 0,
     env_pulse = \<lambda>tr. \<lparr>pulse_code = 0, pulse_value = 0\<rparr>,
     env_clock = \<lambda>tr. \<lparr>tv_sec = 0, tv_nsec = 0\<rparr>, pulse_code_minavail = 1\<rparr>"

theorem ultrasonic_resources_witness:
  "fst (ultrasonic_init stiff_env (Some zero_ultrasonic) 23 24 0 []) = -1
   \<and> open_channels stiff_env (snd (snd (ultrasonic_init stiff_env (Some zero_ultrasonic) 23 24 0 []))) = []"
proof -
  obtain rc s tr where i: "ultrasonic_init stiff_env (Some zero_ultrasonic) 23 24 0 [] = (rc, Some s, tr)"
    by (simp add: ultrasonic_init_def stiff_env_def Let_def GPIO_SUCCESS_def)
  have "fst (ultrasonic_init stiff_env (Some zero_ultrasonic) 23 24 0 []) = -1"
    by (simp add: ultrasonic_init_def stiff_env_def Let_def GPIO_SUCCESS_def)
  then show ?thesis using ultrasonic_resources [OF i] i by simp
qed

section \<open>The inertial driver\<close>

text \<open>
  C27. A steady sensor reads zero after calibration. If the device answers each of the 50 reads of
  the calibration and the next read with the same 14 bytes, the calibrated sample is exactly 0 g on
  x and y and exactly 1 g on z: the accelerometer sums, the mean and the subtraction are exact in
  binary32 for all 16-bit counts.
\<close>

theorem steady_sensor_calibrated:
  assumes "steady_device env raw"
  shows "\<exists>m' tr' v tr''. mpu6050_calibrate env (Some m) tr = (0, Some m', tr')
    \<and> mpu6050_read env (Some m') True tr' = (Some v, tr'')
    \<and> ax v = f32_0 \<and> ay v = f32_0 \<and> az v = f32_lit 1 1"
proof -
  obtain s tr' where c: "mpu6050_calibrate env (Some m) tr = (0, Some (m\<lparr>calib := offsets_of_sums s\<rparr>), tr')"
      "sums_after raw 50 s" using steady_calibrate [OF assms] by blast
  obtain tr'' where "i2c_read_bytes env (imu_fd m) (imu_addr m) REG_ACCEL_XOUT_H 14 tr' = (Some raw, tr'')"
    using steady_read [OF assms] by blast
  then have "mpu6050_read env (Some (m\<lparr>calib := offsets_of_sums s\<rparr>)) True tr'
      = (Some (apply_calib (offsets_of_sums s) (convert_burst raw)), tr'')"
    by (simp add: mpu6050_read_def)
  then show ?thesis using c(1) steady_apply [OF c(2) refl] by blast
qed

definition level_bytes :: "u8 list" where
  "level_bytes = [0x01, 0xF4, 0xFF, 0x38, 0x40, 0x64, 0, 0, 0, 9, 0xFF, 0xF0, 0, 2]"

definition level_env :: imu_env where
  "level_env = \<lparr>malloc_ok = \<lambda>tr. True, devctl_err = \<lambda>tr c. 0, devctl_bytes = \<lambda>tr c. level_bytes\<rparr>"

theorem steady_sensor_calibrated_witness:
  "\<exists>m' tr' v tr''. mpu6050_calibrate level_env (Some zero_mpu6050) [] = (0, Some m', tr')
    \<and> mpu6050_read level_env (Some m') True tr' = (Some v, tr'')
    \<and> ax v = f32_0 \<and> ay v = f32_0 \<and> az v = f32_lit 1 1"
  by (rule steady_sensor_calibrated [of _ level_bytes])
    (simp add: steady_device_def level_env_def level_bytes_def EOK_def)

text \<open>The bytes of a burst, and a sensor that answers with them.\<close>

definition burst_of :: "int list \<Rightarrow> u8 list" where
  "burst_of ns = concat (map (\<lambda>n. [fst (int16_bytes n), snd (int16_bytes n)]) ns)"

definition int16_ok :: "int \<Rightarrow> bool" where
  "int16_ok n = (- 32768 \<le> n \<and> n < 32768)"

lemma int16_pair: "int16_ok n \<Longrightarrow> int16_of_bytes (fst (int16_bytes n)) (snd (int16_bytes n)) = n"
  using int16_bytes_roundtrip [of n] by (simp add: int16_ok_def case_prod_beta)

definition answers_burst :: "imu_env \<Rightarrow> mpu6050 \<Rightarrow> imu_call list \<Rightarrow> int list \<Rightarrow> bool" where
  "answers_burst env m tr ns =
     (let d = Devctl_read (imu_fd m) (imu_addr m) REG_ACCEL_XOUT_H 14
      in malloc_ok env tr \<and> devctl_err env (Malloc 14 # tr) d = EOK
        \<and> devctl_bytes env (Malloc 14 # tr) d = burst_of ns)"

text \<open>
  C28. A burst decodes to the counts the device sent. For every six 16-bit counts, packed most
  significant byte first around the two bytes of the temperature, a successful read returns each
  acceleration as exactly count / 16384 g and each rate as count / 131 deg/s rounded once, less the
  calibration offset, and leaves no block of the heap allocated.
\<close>

theorem burst_decoded:
  assumes "list_all int16_ok [a, b, c, t, d, e, f]" "answers_burst env m tr [a, b, c, t, d, e, f]"
  shows "\<exists>v tr'. mpu6050_read env (Some m) True tr = (Some v, tr')
    \<and> ax v = f32_sub (FFin (a * count_units)) (ax_offset (calib m))
    \<and> ay v = f32_sub (FFin (b * count_units)) (ay_offset (calib m))
    \<and> az v = f32_sub (FFin (c * count_units)) (az_offset (calib m))
    \<and> gx v = f32_sub (f32_div (f32_of_int d) (f32_lit 131 1)) (gx_offset (calib m))
    \<and> gy v = f32_sub (f32_div (f32_of_int e) (f32_lit 131 1)) (gy_offset (calib m))
    \<and> gz v = f32_sub (f32_div (f32_of_int f) (f32_lit 131 1)) (gz_offset (calib m))
    \<and> live_blocks env tr' = live_blocks env tr"
proof -
  let ?raw = "burst_of [a, b, c, t, d, e, f]"
  have "convert_burst ?raw = \<lparr>ax = FFin (a * count_units), ay = FFin (b * count_units), az = FFin (c * count_units),
      gx = f32_div (f32_of_int d) (f32_lit 131 1), gy = f32_div (f32_of_int e) (f32_lit 131 1),
      gz = f32_div (f32_of_int f) (f32_lit 131 1)\<rparr>"
    using assms(1) by (simp add: convert_burst_def burst_of_def accel_g_exact gyro_dps_def int16_pair)
  moreover obtain tr' where r: "i2c_read_bytes env (imu_fd m) (imu_addr m) REG_ACCEL_XOUT_H 14 tr = (Some ?raw, tr')"
    using assms(2) by (simp add: i2c_read_bytes_def answers_burst_def Let_def burst_of_def)
  ultimately show ?thesis
    using i2c_read_bytes_balanced [of env "imu_fd m" "imu_addr m" REG_ACCEL_XOUT_H 14 tr]
    by (simp add: mpu6050_read_def apply_calib_def)
qed

theorem burst_decoded_witness:
  "\<exists>v tr'. mpu6050_read (level_env\<lparr>devctl_bytes := \<lambda>tr c. burst_of [16384, -1, 32767, 0, 131, -32768, 5]\<rparr>)
      (Some zero_mpu6050) True [] = (Some v, tr')
    \<and> ax v = f32_sub (FFin (16384 * count_units)) f32_0"
  using burst_decoded [of 16384 "-1" 32767 0 131 "-32768" 5
      "level_env\<lparr>devctl_bytes := \<lambda>tr c. burst_of [16384, -1, 32767, 0, 131, -32768, 5]\<rparr>" zero_mpu6050 "[]"]
  by (fastforce simp: int16_ok_def answers_burst_def level_env_def EOK_def zero_mpu6050_def zero_calib_def)

text \<open>
  C29. The stand-alone loop of the inertial sensors. With a steady device every turn prints one line
  for each sensor, and both read 0, 0 and 1 g to three decimals, for as many turns as it runs; with
  any device a turn prints at most two lines and the heap is as it was before the start.
\<close>

theorem heartbeat_loop:
  assumes "mpu6050_thread env fd p0 b0 n tr = Some (out, tr')"
  shows "live_blocks env tr' = live_blocks env tr \<and> length out \<le> 2 * n
    \<and> (steady_device env raw \<longrightarrow> (\<exists>outs. out = concat outs \<and> length outs = n \<and> list_all level_lines outs))"
proof -
  obtain p b tr1 where s: "thread_start env fd p0 b0 tr = Some (p, b, tr1)" "heartbeats env p b n tr1 = (out, tr')"
    using assms by (auto simp: mpu6050_thread_def split: option.splits)
  have "\<exists>outs. out = concat outs \<and> length outs = n \<and> list_all level_lines outs" if d: "steady_device env raw"
  proof -
    have fd: "fd \<noteq> -1" using s(1) by (auto simp: thread_start_def)
    obtain m1 m2 s1 s2 where m: "p = m1\<lparr>calib := offsets_of_sums s1\<rparr>" "b = m2\<lparr>calib := offsets_of_sums s2\<rparr>"
        "sums_after raw 50 s1" "sums_after raw 50 s2"
      using steady_start [OF d fd, of p0 b0 tr] s(1) by auto
    show ?thesis using steady_heartbeats [OF d m(3,4), of m1 m2 n tr1] s(2) m(1,2) by auto
  qed
  then show ?thesis using thread_start_balanced [OF s(1)] heartbeats_balanced [OF s(2)] by simp
qed

lemma level_steady: "steady_device level_env level_bytes"
  by (simp add: steady_device_def level_env_def level_bytes_def EOK_def)

theorem heartbeat_loop_witness:
  "\<exists>out tr'. mpu6050_thread level_env 3 zero_mpu6050 zero_mpu6050 4 [] = Some (out, tr')
    \<and> live_blocks level_env tr' = [] \<and> length out \<le> 8"
proof -
  obtain out tr' where r: "mpu6050_thread level_env 3 zero_mpu6050 zero_mpu6050 4 [] = Some (out, tr')"
    using steady_start [OF level_steady, of 3 zero_mpu6050 zero_mpu6050 "[]"]
    by (fastforce simp: mpu6050_thread_def simp del: heartbeats.simps)
  then show ?thesis using heartbeat_loop [OF r, of level_bytes] by simp
qed

end
