(* ===== verification/Spec2Isabelle.thy ===== *)
theory Spec2Isabelle
  imports System_Properties Timeline Detector_Properties Driver_Properties
begin

text \<open>
  Verification of the fault-tolerant parking assistant.

  \<^bold>\<open>The program.\<close> Two ultrasonic rangers and two inertial sensors are read ten times a second into
  one history buffer each. A fault detector classifies every sensor as delayed, stuck, noisy or
  contradicting its twin, debounces the verdicts and takes a condemned sensor out of service; a
  recovery task probes it and readmits it; a fusion engine turns what is left into a distance, an
  uncertainty and a zone, on the ladder FULL, DEGRADED/SINGLE, DEGRADED/HOLDOVER, UNSAFE. Four
  threads, which \<open>main\<close> creates (\<open>src/main.c\<close>), pass messages over QNX channels: the sensor and fusion thread polls,
  notifies the detector and shows an estimate; the detector evaluates the four sensors and sends
  each verdict to the logger and, for a sensor out of service, to the recovery thread.

  \<^bold>\<open>The theories, and the code they model.\<close>
    \<^item> Prelude: the C integer types as words, the rewrite collections \<open>c_ops\<close> (unfold the
      operations that combine others) and \<open>c_inv\<close> (unfold the invariants of a sensor and of the
      program), lists read in ring order.
    \<^item> Float32: the C type \<open>float\<close>, executable and with exact rounding, and the monotonicity of its
      operations. Unlike IEEE the two zeros are one value and there is one NaN: the program does
      not divide by a computed zero, compares with the relational operators only, and the sign of
      a zero would be visible in a printed line, which is not modelled.
    \<^item> Text_Output: the conversions of \<open>printf\<close> the program uses, with readers for them.
    \<^item> Mq_Names: \<open>src/mq_names.h\<close>.
    \<^item> Sensor_Buffer: \<open>src/sensor_buffer.[ch]\<close>, with the ring's invariant, its abstraction
      \<open>history\<close> and the locale \<open>bounded_log\<close>, the contract of a log that keeps the
      last entries, interpreted on the buffer's writer.
    \<^item> Rpi_Gpio: the constants, the requests, their argument rules and their return codes of
      \<open>src/rpi_gpio.h\<close>, the interface of the GPIO server. Gpio_Use: the program's requests keep to them.
    \<^item> Ultrasonic_Driver, Imu_Driver: \<open>src/ultrasonic_driver.[ch]\<close> and
      \<open>src/imu_driver.[ch]\<close>; Imu_Thread: the stand-alone loop \<open>mpu6050_thread\<close>.
    \<^item> Sensor_Manager: \<open>src/sensor_manager.[ch]\<close>, and the invariant \<open>mgr_inv\<close> of its
      buffers under every poll. What a poll needs of a driver is the locale \<open>sampling_driver\<close>,
      interpreted on the two drivers.
    \<^item> Fault_Detector: \<open>src/fault_detector.[ch]\<close>. Fault_State: its transition diagram, its
      counters, the locale \<open>guarded_machine\<close> (a machine whose steps keep an invariant and
      follow the diagram), interpreted on the debounce, on the probe and, in Fdi_Life, on the life
      of a sensor. Fault_Checks: closed descriptions of the checks over the abstract history.
      Fault_Steps: the detection as single accesses to the buffers, which at rest compute \<open>fdi_detect\<close>.
    \<^item> Fusion: \<open>src/fusion.[ch]\<close>. Fusion_Safety: float intervals through the estimate, the ladder.
      Fusion_Runs: holdover over a run of cycles, zones, and the properties of the estimate.
    \<^item> Fdi_Threads: the message handlers, connections, globals, start-up and printed lines of
      \<open>src/main.c\<close>; an evaluation and a recovery message are each given whole and in the parts between
      which they read the buffers. Fdi_Life: the life of one sensor as any sequence of evaluations and
      recovery messages with their verdicts, the timeout bookkeeping, the logger's table. Sensor_Loss:
      a sensor whose fault persists. Timeline: what can be read back from the log.
    \<^item> Thread_System: \<open>main\<close> and the four threads as the step relation \<open>sys_step\<close>, with its
      invariant \<open>sys_inv\<close>. Thread_Invariant: every step keeps it, the reachable states, the creation
      and priorities of the threads. Thread_Life: a run simulates, with stuttering, the life of each
      sensor. State_Owner: which thread moves a sensor, and on what verdict. Thread_Verdicts: what the
      buffers held when a verdict was found, once for both threads that find one (the locale
      \<open>checker\<close>). Thread_Progress: the measure of pending work, what happens without a logger or a
      detector, and what a sender waits for. Thread_Output: the lines and numbers the program shows,
      and the moments at which the readings of an estimate were taken.
    \<^item> Scenarios: concrete states. Idle_Run: a start-up in which no sensor answers, and schedules from
      it. System_Properties, Detector_Properties, Driver_Properties: the
      properties of the program as a whole, of the detector, and of the buffer and the drivers.

  \<^bold>\<open>Correspondence.\<close> A C struct is a record with its fields, an enum a datatype, \<open>uint64_t\<close> and its
  kin are words that wrap, and a C \<open>int\<close> that counts small things or carries a return code is an
  \<open>int\<close>. A pointer that the code checks against \<open>NULL\<close> is an \<open>option\<close>; an output pointer is part of
  the result. A function that takes a pointer to a context is given as a body on the context
  (\<open>update_ctx\<close>) and as the function with its guard (\<open>fdi_update_state\<close>). Return codes are kept. A
  value of an enumeration outside its enumerators is the constructor \<open>SENSOR_COUNT\<close> for a sensor
  id and is not modelled for a state or a fault.

  \<^bold>\<open>What is a parameter.\<close> The kernel, the GPIO server, the I2C manager, the allocator, the file
  system and the clocks are outside the repository. Each call to them is recorded in a trace and
  answered by an environment (\<open>us_env\<close>, \<open>imu_env\<close>, \<open>mgr_env\<close>) that may depend on the whole trace, so the
  properties hold for every behaviour of the devices, unless one names a hypothesis. The only
  hypothesis about an environment that a liveness property needs is \<open>pulses_run_out\<close>: the kernel
  has a finite number of queued pulses, so that a receive under an expired timeout fails at some point.

  \<^bold>\<open>Loops, fuel.\<close> No definition has a fuel argument. The drain loop of \<open>ultrasonic_read\<close> is a
  partial function into \<open>option\<close>, \<open>None\<close> when it does not stop, and the polls that use it inherit
  that result; under \<open>pulses_run_out\<close> it is \<open>Some\<close>. The calibration loop counts its 50 samples, the
  loops over samples and values are folds over lists of at most ten samples of six values. The
  endless loop of \<open>mpu6050_thread\<close> is given for any number of turns, the endless loops of the four
  threads are the runs of \<open>sys_step\<close>.

  \<^bold>\<open>Concurrency.\<close> A step is what no other thread can be seen to interrupt: an operation on a buffer,
  which holds the buffer's lock, or a short run of writes of one thread. The detector reads the state
  of a sensor; makes up to six accesses to the two buffers, between any of which the sensor thread may
  write and the recovery thread may move on; runs the debounce, which may leave the sensor FAULTED;
  isolates it and notes the verdict; and builds the event. So an event may report a state that the
  recovery thread changed after the evaluation. The recovery thread runs its switch; if a probe needs a
  verdict, it makes the same accesses and then uses what it found. The fusion engine reads one
  contributor, then the other, then combines them, so that an estimate may combine readings taken
  before and after another thread moved a sensor on. The read of one sensor in a poll, the
  construction of an event, the changes of a recovery timeout (the events it logs follow one by one),
  and the estimate from the two readings (with the acceleration, when it needs it) are one step each,
  and so is the output of its two lines: the four states on the second line are those of one moment. The
  code has no lock on the contexts. A \<open>MsgSend\<close> blocks
  its sender until the receiver waits in \<open>MsgReceive\<close>; the receiver replies at once, so the two are
  one joint step. The results of \<open>MsgSend\<close> and \<open>pthread_create\<close> are ignored by the code: a send
  that fails loses its message (where the system is \<open>lossy\<close>), a thread that was not created stays
  at its first point; a receive that fails is tried again. The sleep at the end of a cycle is a step
  that is recorded, and the clock is an answer of the environment. The priority a thread asks for is
  recorded, but does not restrict the schedule: the properties hold for every schedule. The flag
  \<open>g_running\<close> is tested by every loop and never cleared.

  \<^bold>\<open>What the properties show.\<close> The program keeps its invariant, computes with
  genuine floats, handles every message in a bounded number of steps and never stops while its
  threads live (C1, C15, C30, C7, C31), asks the GPIO server for nothing its interface forbids
  (C32); what it prints is what it estimated, to within 0.05 cm (C12, C13, C14). Estimates: mode,
  range, zone, holdover and the independence of excluded sensors (C2, C3, C10, C19, C20). Sensors:
  the state diagram under all interleavings and its refinement by the threads, the one thread and
  the verdict behind every move, the evidence behind every verdict, loss of a failing sensor and
  readmission after exactly the configured number of verdicts (C4, C5, C8, C9, C6, C11, C17, C18).
  The checks as statements on the history (C21, C22, C23); the buffer as a refinement of a bounded
  list (C16); the drivers' ranges, bounded waits, resources, calibration and byte order (C24, C25,
  C26, C27, C28, C29); the log (C39, C40). Some properties state how the code departs from its
  comments: the recovery timeout does not exclude the sensor and the retry limit is without effect
  (C33, C37), faults need not be consecutive (\<open>spaced_faults_condemn\<close>), a missing log
  file or thread stops the program (C34, C35), the detector waits for the logger (C36), and the
  mean of a healthy and a suspect reading can lie beyond the nearer one (C38).

  \<^bold>\<open>Not modelled.\<close> The messages on \<open>stderr\<close> and the banner and progress lines of the start-up, which
  carry no state; what C leaves undefined when \<open>main\<close> joins a thread that was not created (here it
  waits for ever); torn reads of a context, on which the code has no lock (each field is read and
  written whole); the pulse frequencies and percentages the GPIO server admits, which
  \<open>src/rpi_gpio.h\<close> does not give and no file uses; the time a step takes, so that periods and
  priorities constrain nothing.
\<close>

end
